theory Spec2Isabelle
  imports Main "HOL-Library.Sublist"
begin

section \<open>Values and strings\<close>

text \<open>
  A parsed OpenAPI document is a tree of JavaScript values. Objects are association
  lists in insertion order (a parsed document has no duplicate keys; a lookup takes the
  first binding). JavaScript enumerates the keys that are array indices first, in
  ascending order, and the other keys in insertion order: the model enumerates every key
  in insertion order, which is the same for the names of routes, methods, parameters and
  properties that are not integers. Numbers are integers: fractions and NaN do not occur in what is
  modelled. Strings are sequences of code units below 256. Properties that a value
  inherits (\<open>constructor\<close>, \<open>toString\<close>, \<open>__proto__\<close>, ...) are not part of a
  document and are not modelled.
\<close>

datatype json =
    JUndefined
  | JNull
  | JBool bool
  | JNum int
  | JStr string
  | JArr "json list"
  | JObj "(string \<times> json) list"

datatype error =
    InvalidURL
  | SchemeNotAllowed
  | HostNotAllowed
  | PrivateIPBlocked
  | ExtensionNotAllowed
  | FileNotFound
  | NotAFile
  | FileTooLarge
  | PathTraversal
  | EmptyName
  | InvalidPort
  | NoBaseUrl
  | NoToolsRegistered
  | TypeError
  | RangeError
  | SchemaCompileError
  | RegistrationError

text \<open>
  \<open>toLowerCase\<close> and \<open>toUpperCase\<close>, code unit by code unit: the letters \<open>A\<close> to
  \<open>Z\<close>, and the letters from 192 to 222 (but the sign 215) whose lower case is 32
  higher. The upper case of the code units 181, 223 and 255 is no code unit below 256:
  on these three \<open>toUpperCase\<close> is not modelled and leaves them as they are. It is
  applied to keys whose lower case is an HTTP verb, where none of them occurs.
\<close>

definition to_lower_char :: "char \<Rightarrow> char" where
  "to_lower_char c =
     (case map_of (zip ''ABCDEFGHIJKLMNOPQRSTUVWXYZ'' ''abcdefghijklmnopqrstuvwxyz'') c of
        Some d \<Rightarrow> d
      | None \<Rightarrow>
          if 192 \<le> (of_char c :: nat) \<and> (of_char c :: nat) \<le> 222 \<and> (of_char c :: nat) \<noteq> 215
          then char_of ((of_char c :: nat) + 32) else c)"

definition to_upper_char :: "char \<Rightarrow> char" where
  "to_upper_char c =
     (case map_of (zip ''abcdefghijklmnopqrstuvwxyz'' ''ABCDEFGHIJKLMNOPQRSTUVWXYZ'') c of
        Some d \<Rightarrow> d
      | None \<Rightarrow>
          if 224 \<le> (of_char c :: nat) \<and> (of_char c :: nat) \<le> 254 \<and> (of_char c :: nat) \<noteq> 247
          then char_of ((of_char c :: nat) - 32) else c)"

definition toLowerCase :: "string \<Rightarrow> string" where
  "toLowerCase s = map to_lower_char s"

definition toUpperCase :: "string \<Rightarrow> string" where
  "toUpperCase s = map to_upper_char s"

text \<open>\<open>s.startsWith(p)\<close> and \<open>s.endsWith(p)\<close>.\<close>

definition startsWith :: "string \<Rightarrow> string \<Rightarrow> bool" where
  "startsWith s p = (take (length p) s = p)"

definition endsWith :: "string \<Rightarrow> string \<Rightarrow> bool" where
  "endsWith s p = (length p \<le> length s \<and> drop (length s - length p) s = p)"

section \<open>Security gate\<close>

record security_config =
  allowedSchemes :: "string list"
  allowedHosts :: "string list"
  blockPrivateIPs :: bool
  allowedExtensions :: "string list"
  baseDirectory :: "string option"
  maxFileSize :: nat

definition defaultSecurityConfig :: security_config where
  "defaultSecurityConfig =
     \<lparr> allowedSchemes = [''https''],
       allowedHosts = [],
       blockPrivateIPs = True,
       allowedExtensions = [''.yaml'', ''.yml'', ''.json''],
       baseDirectory = None,
       maxFileSize = 10 * 1024 * 1024 \<rparr>"

subsection \<open>Private address patterns\<close>

text \<open>
  The pattern \<open>/^172\.(1[6-9]|2\d|3[01])\./\<close>: the prefix \<open>172.\<close>, two characters
  of one of the three alternatives, and a dot.
\<close>

definition range_172 :: "string \<Rightarrow> bool" where
  "range_172 h =
     (startsWith h ''172.'' \<and>
      (case drop 4 h of
         a # b # c # _ \<Rightarrow>
           ((a = CHR ''1'' \<and> b \<in> set ''6789'') \<or>
            (a = CHR ''2'' \<and> b \<in> set ''0123456789'') \<or>
            (a = CHR ''3'' \<and> b \<in> set ''01'')) \<and> c = CHR ''.''
       | _ \<Rightarrow> False))"

text \<open>\<open>PRIVATE_IP_RANGES\<close>, one test per regular expression, in the source's order.\<close>

definition PRIVATE_IP_RANGES :: "(string \<Rightarrow> bool) list" where
  "PRIVATE_IP_RANGES =
     [ \<lambda>h. startsWith h ''127.'',
       \<lambda>h. startsWith h ''10.'',
       range_172,
       \<lambda>h. startsWith h ''192.168.'',
       \<lambda>h. startsWith h ''169.254.'',
       \<lambda>h. h = ''::1'',
       \<lambda>h. startsWith h ''fe80:'',
       \<lambda>h. startsWith h ''fc00:'',
       \<lambda>h. startsWith h ''fd00:'' ]"

definition isPrivateIP :: "string \<Rightarrow> bool" where
  "isPrivateIP hostname = list_ex (\<lambda>range. range hostname) PRIVATE_IP_RANGES"

subsection \<open>validateURL\<close>

text \<open>
  The fields of a parsed \<open>URL\<close> object that the code reads. The platform's URL
  parser is a parameter: \<open>None\<close> is the constructor throwing.
\<close>

record parsed_url =
  protocol :: string
  hostname :: string
  href :: string

type_synonym url_parser = "string \<Rightarrow> parsed_url option"

text \<open>One entry of the host allowlist against the hostname (the callback of \<open>some\<close>).\<close>

definition hostAllowed :: "string \<Rightarrow> string \<Rightarrow> bool" where
  "hostAllowed hostname' host =
     (if startsWith host ''*.'' then
        (let domain = drop 2 host
         in hostname' = domain \<or> endsWith hostname' (''.'' @ domain))
      else hostname' = host)"

definition validateURL :: "url_parser \<Rightarrow> string \<Rightarrow> security_config \<Rightarrow> error + parsed_url" where
  "validateURL parse urlString config =
     (case parse urlString of
        None \<Rightarrow> Inl InvalidURL
      | Some parsedURL \<Rightarrow>
          if butlast (protocol parsedURL) \<notin> set (allowedSchemes config) then
            Inl SchemeNotAllowed
          else if allowedHosts config \<noteq> [] \<and>
                  \<not> list_ex (hostAllowed (hostname parsedURL)) (allowedHosts config) then
            Inl HostNotAllowed
          else if blockPrivateIPs config \<and> isPrivateIP (hostname parsedURL) then
            Inl PrivateIPBlocked
          else Inr parsedURL)"

text \<open>
  A parser for the plain shape \<open>scheme://host/path\<close> (no port, credentials, query or
  fragment), enough to run the examples: the scheme is what precedes the first
  \<open>://\<close>, the hostname what follows up to the next slash.
\<close>

fun split_scheme :: "string \<Rightarrow> string \<Rightarrow> (string \<times> string) option" where
  "split_scheme acc [] = None"
| "split_scheme acc (c # cs) =
     (if c = CHR '':'' then
        (if startsWith cs ''//'' \<and> acc \<noteq> [] then Some (acc, drop 2 cs) else None)
      else split_scheme (acc @ [c]) cs)"

definition plain_url_parser :: url_parser where
  "plain_url_parser s =
     (case split_scheme [] s of
        None \<Rightarrow> None
      | Some (scheme, rest) \<Rightarrow>
          (let host = takeWhile (\<lambda>c. c \<noteq> CHR ''/'') rest
           in if host = [] then None
              else Some \<lparr> protocol = toLowerCase scheme @ '':'',
                          hostname = toLowerCase host,
                          href = s \<rparr>))"

subsection \<open>validateFilePath\<close>

text \<open>
  The platform around \<open>validateFilePath\<close>: \<open>path.resolve\<close>, \<open>path.extname\<close>,
  \<open>path.sep\<close> and the file system (\<open>None\<close>: no such path; otherwise whether it is
  a regular file, and its size).
\<close>

record file_stat =
  stat_isFile :: bool
  stat_size :: nat

record platform =
  resolve :: "string \<Rightarrow> string"
  extname :: "string \<Rightarrow> string"
  sep :: string
  stat :: "string \<Rightarrow> file_stat option"

definition validateFilePath :: "platform \<Rightarrow> string \<Rightarrow> security_config \<Rightarrow> error + string" where
  "validateFilePath pf filePath config =
     (let resolvedPath = resolve pf filePath;
          ext = toLowerCase (extname pf resolvedPath)
      in if ext \<notin> set (allowedExtensions config) then Inl ExtensionNotAllowed
         else case stat pf resolvedPath of
           None \<Rightarrow> Inl FileNotFound
         | Some stats \<Rightarrow>
             if \<not> stat_isFile stats then Inl NotAFile
             else if stat_size stats > maxFileSize config then Inl FileTooLarge
             else (case baseDirectory config of
                     None \<Rightarrow> Inr resolvedPath
                   | Some base \<Rightarrow>
                       if base = [] then Inr resolvedPath
                       else (let baseDir = resolve pf base
                             in if \<not> startsWith resolvedPath (baseDir @ sep pf) \<and>
                                   resolvedPath \<noteq> baseDir
                                then Inl PathTraversal
                                else Inr resolvedPath)))"

text \<open>
  A POSIX platform: \<open>path.resolve\<close> makes the path absolute against the working
  directory and normalises \<open>.\<close>, \<open>..\<close> and repeated slashes; \<open>path.extname\<close> is the
  last segment from its last dot, empty when there is no dot or only a leading one.
\<close>

fun split_on :: "char \<Rightarrow> string \<Rightarrow> string \<Rightarrow> string list" where
  "split_on d acc [] = [acc]"
| "split_on d acc (c # cs) =
     (if c = d then acc # split_on d [] cs else split_on d (acc @ [c]) cs)"

fun normalize_segments :: "string list \<Rightarrow> string list \<Rightarrow> string list" where
  "normalize_segments stack [] = stack"
| "normalize_segments stack (s # ss) =
     (if s = [] \<or> s = ''.'' then normalize_segments stack ss
      else if s = ''..'' then normalize_segments (butlast stack) ss
      else normalize_segments (stack @ [s]) ss)"

definition join_path :: "string list \<Rightarrow> string" where
  "join_path segs = (if segs = [] then ''/'' else concat (map (\<lambda>s. ''/'' @ s) segs))"

definition posix_resolve :: "string \<Rightarrow> string \<Rightarrow> string" where
  "posix_resolve cwd p =
     (if startsWith p ''/'' then join_path (normalize_segments [] (split_on CHR ''/'' [] p))
      else join_path (normalize_segments [] (split_on CHR ''/'' [] (cwd @ ''/'' @ p))))"

definition posix_extname :: "string \<Rightarrow> string" where
  "posix_extname p =
     (let base = last (split_on CHR ''/'' [] p);
          stem = rev (dropWhile (\<lambda>c. c \<noteq> CHR ''.'') (rev base))
      in if stem = [] \<or> stem = ''.'' \<or> base = ''..'' then []
         else drop (length stem - 1) base)"

definition posix_platform :: "string \<Rightarrow> (string \<Rightarrow> file_stat option) \<Rightarrow> platform" where
  "posix_platform cwd files =
     \<lparr> resolve = posix_resolve cwd, extname = posix_extname, sep = ''/'', stat = files \<rparr>"

subsection \<open>sanitizeToolName\<close>

definition is_control :: "char \<Rightarrow> bool" where
  "is_control c = ((of_char c :: nat) \<le> 31 \<or> (of_char c :: nat) = 127)"

text \<open>The white space and line terminators that \<open>trim\<close> removes, among the code
  units below 256: tab, line feed, vertical tab, form feed, carriage return, space and
  the no-break space.\<close>

definition is_space :: "char \<Rightarrow> bool" where
  "is_space c = ((of_char c :: nat) \<in> {9, 10, 11, 12, 13, 32, 160})"

definition trim :: "string \<Rightarrow> string" where
  "trim s = rev (dropWhile is_space (rev (dropWhile is_space s)))"

definition sanitizeToolName :: "string \<Rightarrow> error + string" where
  "sanitizeToolName name =
     (if name = [] then Inl EmptyName
      else (let sanitized = take 200 (trim (filter (\<lambda>c. \<not> is_control c) name))
            in if length sanitized = 0 then Inl EmptyName else Inr sanitized))"


section \<open>JavaScript objects and coercions\<close>

fun truthy :: "json \<Rightarrow> bool" where
  "truthy JUndefined = False"
| "truthy JNull = False"
| "truthy (JBool b) = b"
| "truthy (JNum n) = (n \<noteq> 0)"
| "truthy (JStr s) = (s \<noteq> [])"
| "truthy (JArr xs) = True"
| "truthy (JObj kvs) = True"

text \<open>\<open>o[k]\<close>, \<open>o[k] = v\<close>, \<open>delete o[k]\<close> and \<open>Object.assign(o, src)\<close> on the
  entries of an object. Assigning to a present key keeps its position.\<close>

definition getp :: "(string \<times> json) list \<Rightarrow> string \<Rightarrow> json" where
  "getp kvs k = (case map_of kvs k of Some v \<Rightarrow> v | None \<Rightarrow> JUndefined)"

fun obj_set :: "(string \<times> 'a) list \<Rightarrow> string \<Rightarrow> 'a \<Rightarrow> (string \<times> 'a) list" where
  "obj_set [] k v = [(k, v)]"
| "obj_set ((k', v') # kvs) k v =
     (if k' = k then (k, v) # kvs else (k', v') # obj_set kvs k v)"


definition obj_assign :: "(string \<times> 'a) list \<Rightarrow> (string \<times> 'a) list \<Rightarrow> (string \<times> 'a) list" where
  "obj_assign target source = fold (\<lambda>kv acc. obj_set acc (fst kv) (snd kv)) source target"

text \<open>Decimal digits of a natural number and of an integer.\<close>

function show_nat :: "nat \<Rightarrow> string" where
  "show_nat n =
     (if n < 10 then [''0123456789'' ! n]
      else show_nat (n div 10) @ [''0123456789'' ! (n mod 10)])"
  by pat_completeness auto
termination
  by (relation "measure (\<lambda>n. n)") auto

declare show_nat.simps [simp del]

fun join :: "string \<Rightarrow> string list \<Rightarrow> string" where
  "join d [] = []"
| "join d [x] = x"
| "join d (x # y # ys) = x @ d @ join d (y # ys)"

definition show_int :: "int \<Rightarrow> string" where
  "show_int n = (if n < 0 then ''-'' @ show_nat (nat (- n)) else show_nat (nat n))"

text \<open>
  \<open>String(v)\<close>. A number of the platform is a double: the integers it holds one by one
  are those of magnitude up to \<open>Number.MAX_SAFE_INTEGER\<close>, and such a number prints as
  its decimal digits. A larger integer is not a value that a parsed document or an input
  holds (parsing rounds it), and from \<open>1e21\<close> the platform prints an exponent: for these
  the printed form is not modelled, and the result is \<open>None\<close>. An array prints its
  elements separated by commas, \<open>null\<close> and \<open>undefined\<close> as nothing.
\<close>

definition MAX_SAFE_INTEGER :: int where
  "MAX_SAFE_INTEGER = 9007199254740991"

fun to_string :: "json \<Rightarrow> string option" where
  "to_string JUndefined = Some ''undefined''"
| "to_string JNull = Some ''null''"
| "to_string (JBool b) = Some (if b then ''true'' else ''false'')"
| "to_string (JNum n) =
     (if - MAX_SAFE_INTEGER \<le> n \<and> n \<le> MAX_SAFE_INTEGER then Some (show_int n) else None)"
| "to_string (JStr s) = Some s"
| "to_string (JArr xs) =
     map_option (join '','')
       (those (map (\<lambda>x. if x = JNull \<or> x = JUndefined then Some [] else to_string x) xs))"
| "to_string (JObj kvs) = Some ''[object Object]''"

text \<open>The own enumerable entries of a value, as \<open>Object.entries\<close>, \<open>Object.assign\<close>
  and a spread read them.\<close>

fun own_entries :: "json \<Rightarrow> (string \<times> json) list" where
  "own_entries (JObj kvs) = kvs"
| "own_entries (JArr xs) = zip (map show_nat [0..<length xs]) xs"
| "own_entries (JStr s) = zip (map show_nat [0..<length s]) (map (\<lambda>c. JStr [c]) s)"
| "own_entries _ = []"

text \<open>
  \<open>encodeURIComponent(v)\<close>: \<open>v\<close> is converted to a string; a code unit of the
  unreserved set stays, any other becomes \<open>%XX\<close> for each byte of its UTF-8 form (one
  byte below 128, two bytes from 128 to 255). The result is \<open>None\<close> where the string
  form of \<open>v\<close> is. (The platform throws on a lone surrogate; with code units below 256
  there is none.)
\<close>

definition unreserved :: "char \<Rightarrow> bool" where
  "unreserved c =
     (c \<in> set (''ABCDEFGHIJKLMNOPQRSTUVWXYZabcdefghijklmnopqrstuvwxyz0123456789-_.!~*()'' @
               [CHR 0x27]))"

definition hex_digit :: "nat \<Rightarrow> char" where
  "hex_digit k = ''0123456789ABCDEF'' ! k"

definition utf8 :: "char \<Rightarrow> nat list" where
  "utf8 c = (if (of_char c :: nat) < 128 then [of_char c]
             else [192 + of_char c div 64, 128 + of_char c mod 64])"

definition percent :: "nat \<Rightarrow> string" where
  "percent byte = [CHR ''%'', hex_digit (byte div 16), hex_digit (byte mod 16)]"

definition encode_unit :: "char \<Rightarrow> string" where
  "encode_unit c = (if unreserved c then [c] else concat (map percent (utf8 c)))"

definition encodeURIComponent :: "json \<Rightarrow> string option" where
  "encodeURIComponent v = map_option (\<lambda>s. concat (map encode_unit s)) (to_string v)"


section \<open>Schema extractor\<close>

text \<open>
  An operation as the extractor reads it. A parameter is an object with string
  \<open>in\<close>, \<open>name\<close> and \<open>description\<close> and an object \<open>schema\<close>, each possibly
  absent; \<open>param_required\<close> holds when \<open>required\<close> is the value \<open>true\<close>. A request
  body records whether \<open>required\<close> is \<open>true\<close> and its \<open>application/json\<close> entry:
  \<open>None\<close> when there is none, \<open>Some None\<close> when the entry has no schema, otherwise the
  entries of the schema object. A response records its \<open>application/json\<close> entry the
  same way.
\<close>

record parameter =
  param_in :: "string option"
  param_name :: "string option"
  param_schema :: "(string \<times> json) list option"
  param_description :: "string option"
  param_example :: "json option"
  param_required :: bool

record request_body =
  body_required :: bool
  body_json_schema :: "(string \<times> json) list option option"

record response =
  resp_description :: "string option"
  resp_json_schema :: "(string \<times> json) list option option"

record operation =
  operationId :: "string option"
  summary :: "string option"
  tags :: "string list option"
  parameters :: "parameter list option"
  requestBody :: "request_body option"
  responses :: "(string \<times> response) list option"

datatype location = Path | Query | Header | Cookie

fun location_name :: "location \<Rightarrow> string" where
  "location_name Path = ''path''"
| "location_name Query = ''query''"
| "location_name Header = ''header''"
| "location_name Cookie = ''cookie''"

definition location_of :: "string option \<Rightarrow> location option" where
  "location_of l =
     (if l = Some ''path'' then Some Path
      else if l = Some ''query'' then Some Query
      else if l = Some ''header'' then Some Header
      else if l = Some ''cookie'' then Some Cookie
      else None)"

text \<open>The two locals of \<open>extractParameters\<close>: \<open>parameters\<close> (four buckets and the
  body) and \<open>required\<close>.\<close>

record extracted =
  buckets :: "location \<Rightarrow> (string \<times> (string \<times> json) list) list"
  body :: "(string \<times> json) list option"
  required :: "location \<Rightarrow> string list"

definition paramSchema :: "parameter \<Rightarrow> (string \<times> json) list" where
  "paramSchema param =
     (let schema = (case param_schema param of
                      Some s \<Rightarrow> s | None \<Rightarrow> [(''type'', JStr ''string'')]);
          s0 = obj_assign
                 [(''type'', if truthy (getp schema ''type'') then getp schema ''type''
                             else JStr ''string'')]
                 schema;
          s1 = (case param_description param of
                  Some d \<Rightarrow> if d \<noteq> [] then obj_set s0 ''description'' (JStr d) else s0
                | None \<Rightarrow> s0)
      in case param_example param of
           Some e \<Rightarrow> obj_set s1 ''example'' e
         | None \<Rightarrow> s1)"

definition nameless_warning :: string where
  "nameless_warning = ''Parameter without name found, skipping''"

text \<open>One round of the loop over \<open>operation.parameters\<close>, on the two locals and the
  console.\<close>

definition extract_param :: "parameter \<Rightarrow> extracted \<times> string list \<Rightarrow> extracted \<times> string list" where
  "extract_param param st =
     (let ex = fst st; warnings = snd st
      in case param_name param of
           None \<Rightarrow> (ex, warnings @ [nameless_warning])
         | Some name \<Rightarrow>
             if name = [] then (ex, warnings @ [nameless_warning])
             else (case location_of (param_in param) of
                     None \<Rightarrow> (ex, warnings)
                   | Some loc \<Rightarrow>
                       (ex \<lparr> buckets := (buckets ex)
                                (loc := obj_set (buckets ex loc) name (paramSchema param)),
                             required := (if param_required param
                                          then (required ex) (loc := required ex loc @ [name])
                                          else required ex) \<rparr>,
                        warnings)))"

text \<open>The request body part: \<open>parameters.body\<close> is the schema object of the
  operation itself, so setting \<open>required\<close> on it changes the operation. The result is
  the body and the operation afterwards.\<close>

definition extract_body :: "operation \<Rightarrow> (string \<times> json) list option \<times> operation" where
  "extract_body op =
     (case requestBody op of
        None \<Rightarrow> (None, op)
      | Some rb \<Rightarrow>
          (case body_json_schema rb of
             None \<Rightarrow> (None, op)
           | Some None \<Rightarrow>
               (Some (if body_required rb then [(''required'', JBool True)] else []), op)
           | Some (Some schema) \<Rightarrow>
               if body_required rb then
                 (let schema' = obj_set schema ''required'' (JBool True)
                  in (Some schema',
                      op \<lparr> requestBody := Some (rb \<lparr> body_json_schema := Some (Some schema') \<rparr>) \<rparr>))
               else (Some schema, op)))"

definition empty_extracted :: extracted where
  "empty_extracted = \<lparr> buckets = (\<lambda>loc. []), body = None, required = (\<lambda>loc. []) \<rparr>"

text \<open>\<open>extractParameters\<close>: what it returns, what it prints, and the operation
  afterwards.\<close>

definition extractParameters :: "operation \<Rightarrow> extracted \<times> string list \<times> operation" where
  "extractParameters op =
     (let st = fold extract_param
                 (case parameters op of Some ps \<Rightarrow> ps | None \<Rightarrow> [])
                 (empty_extracted, []);
          b = extract_body op
      in ((fst st) \<lparr> body := fst b \<rparr>, snd st, snd b))"

text \<open>
  \<open>[...new Set(xs)]\<close>: first occurrences, in order. A set compares strings, numbers,
  booleans, \<open>null\<close> and \<open>undefined\<close> by value and arrays and objects by identity:
  in a parsed document the arrays and objects at two places are two objects, however
  alike, so an array or object is never the same as an earlier element. (A document
  loaded from YAML with an alias can hold one object at two places; that is not
  modelled.)
\<close>

fun primitive :: "json \<Rightarrow> bool" where
  "primitive (JArr xs) = False"
| "primitive (JObj kvs) = False"
| "primitive _ = True"

definition sameValueZero :: "json \<Rightarrow> json \<Rightarrow> bool" where
  "sameValueZero x y \<longleftrightarrow> primitive x \<and> x = y"

fun dedupe :: "json list \<Rightarrow> json list \<Rightarrow> json list" where
  "dedupe seen [] = seen"
| "dedupe seen (x # xs) = dedupe (if list_ex (sameValueZero x) seen then seen else seen @ [x]) xs"

definition locations :: "location list" where
  "locations = [Path, Query, Header, Cookie]"

definition add_bucket ::
  "location \<Rightarrow> (string \<times> (string \<times> json) list) list \<Rightarrow> (string \<times> json) list \<Rightarrow> (string \<times> json) list" where
  "add_bucket loc bucket props =
     fold (\<lambda>entry acc. obj_set acc (fst entry)
             (JObj (obj_set (snd entry) ''x-parameter-location'' (JStr (location_name loc)))))
          bucket props"

definition buildInputSchema :: "operation \<Rightarrow> json" where
  "buildInputSchema op =
     (let ex = fst (extractParameters op);
          props0 = fold (\<lambda>loc acc. add_bucket loc (buckets ex loc) acc) locations [];
          req0 = concat (map (\<lambda>loc. map JStr (required ex loc)) locations);
          merged =
            (case body ex of
               None \<Rightarrow> (props0, req0)
             | Some b \<Rightarrow>
                 if truthy (getp b ''properties'') then
                   (obj_assign props0 (own_entries (getp b ''properties'')),
                    (case getp b ''required'' of JArr names \<Rightarrow> req0 @ names | _ \<Rightarrow> req0))
                 else if truthy (getp b ''type'') then
                   (obj_set props0 ''_body'' (JObj b),
                    (if getp b ''required'' = JBool True then req0 @ [JStr ''_body''] else req0))
                 else (props0, req0))
      in JObj [(''type'', JStr ''object''),
               (''properties'', JObj (fst merged)),
               (''required'', JArr (dedupe [] (snd merged))),
               (''additionalProperties'', JBool False)])"

section \<open>Request executor\<close>






section \<open>Reference resolution\<close>

text \<open>
  \<open>typeof v === 'object'\<close> for a truthy value, and the property read \<open>v[k]\<close> on
  such a value: an object's own entry, an array's element at a canonical index or its
  \<open>length\<close>. Inherited properties (\<open>constructor\<close>, \<open>toString\<close>, ...) are not JSON
  and are not modelled.
\<close>

fun is_object :: "json \<Rightarrow> bool" where
  "is_object (JObj kvs) = True"
| "is_object (JArr xs) = True"
| "is_object _ = False"

fun member :: "json \<Rightarrow> string \<Rightarrow> json" where
  "member (JObj kvs) k = getp kvs k"
| "member (JArr xs) k =
     (if k = ''length'' then JNum (int (length xs)) else getp (own_entries (JArr xs)) k)"
| "member _ k = JUndefined"

text \<open>The loop over the segments of a pointer: \<open>None\<close> is the early return that
  leaves the schema as it is.\<close>

fun walk :: "json \<Rightarrow> string list \<Rightarrow> json option" where
  "walk resolved [] = Some resolved"
| "walk resolved (segment # segments) =
     (if truthy resolved \<and> is_object resolved then walk (member resolved segment) segments
      else None)"

definition refPath :: "string \<Rightarrow> string list" where
  "refPath ref = split_on CHR ''/'' [] (if startsWith ref ''#/'' then drop 2 ref else ref)"

text \<open>The results of a list of calls made in order: the first exception wins.\<close>

fun collect_results :: "(error + 'a) list \<Rightarrow> error + 'a list" where
  "collect_results [] = Inr []"
| "collect_results (r # rs) =
     (case r of
        Inl e \<Rightarrow> Inl e
      | Inr v \<Rightarrow> (case collect_results rs of Inl e \<Rightarrow> Inl e | Inr vs \<Rightarrow> Inr (v # vs)))"

text \<open>
  What is done to the value of one keyword, given the recursive call \<open>rec\<close>:
  \<open>properties\<close> is rebuilt entry by entry, \<open>items\<close> is resolved itself, and
  \<open>allOf\<close>, \<open>oneOf\<close>, \<open>anyOf\<close> are mapped (\<open>.map\<close> on anything but an array is a
  \<open>TypeError\<close>).
\<close>

definition resolve_entries :: "(json \<Rightarrow> error + json) \<Rightarrow> json \<Rightarrow> error + json" where
  "resolve_entries rec val =
     (case collect_results
             (map (\<lambda>kv. case rec (snd kv) of Inl e \<Rightarrow> Inl e | Inr v \<Rightarrow> Inr (fst kv, v))
                  (own_entries val)) of
        Inl e \<Rightarrow> Inl e
      | Inr kvs \<Rightarrow> Inr (JObj kvs))"

definition resolve_each :: "(json \<Rightarrow> error + json) \<Rightarrow> json \<Rightarrow> error + json" where
  "resolve_each rec val =
     (case val of
        JArr xs \<Rightarrow> (case collect_results (map rec xs) of
                      Inl e \<Rightarrow> Inl e | Inr ys \<Rightarrow> Inr (JArr ys))
      | _ \<Rightarrow> Inl TypeError)"

text \<open>\<open>if (result[key]) result[key] = f(result[key])\<close>, on the entries of \<open>result\<close>.\<close>

definition resolve_key ::
  "string \<Rightarrow> (json \<Rightarrow> error + json) \<Rightarrow> (string \<times> json) list \<Rightarrow> error + (string \<times> json) list" where
  "resolve_key key f result =
     (if truthy (getp result key) then
        (case f (getp result key) of
           Inl e \<Rightarrow> Inl e
         | Inr v \<Rightarrow> Inr (obj_set result key v))
      else Inr result)"

definition then_do :: "error + 'a \<Rightarrow> ('a \<Rightarrow> error + 'b) \<Rightarrow> error + 'b" where
  "then_do r f = (case r of Inl e \<Rightarrow> Inl e | Inr v \<Rightarrow> f v)"

definition resolve_nested :: "(json \<Rightarrow> error + json) \<Rightarrow> (string \<times> json) list \<Rightarrow> error + json" where
  "resolve_nested rec result =
     then_do (resolve_key ''properties'' (resolve_entries rec) result) (\<lambda>r1.
     then_do (resolve_key ''items'' rec r1) (\<lambda>r2.
     then_do (resolve_key ''allOf'' (resolve_each rec) r2) (\<lambda>r3.
     then_do (resolve_key ''oneOf'' (resolve_each rec) r3) (\<lambda>r4.
     then_do (resolve_key ''anyOf'' (resolve_each rec) r4) (\<lambda>r5.
     Inr (JObj r5))))))"

text \<open>
  \<open>resolveSchemaRefs\<close>. The first argument is the call depth still available: a call
  with none left is the engine's \<open>RangeError\<close> (maximum call stack size exceeded), and
  every recursive call has one less.
\<close>

primrec resolveSchemaRefs :: "nat \<Rightarrow> json \<Rightarrow> json \<Rightarrow> error + json" where
  "resolveSchemaRefs 0 schema spec = Inl RangeError"
| "resolveSchemaRefs (Suc depth) schema spec =
     (if \<not> truthy schema \<or> \<not> is_object schema then Inr schema
      else if truthy (member schema ''$ref'') then
        (case member schema ''$ref'' of
           JStr ref \<Rightarrow>
             (case walk spec (refPath ref) of
                None \<Rightarrow> Inr schema
              | Some resolved \<Rightarrow> resolveSchemaRefs depth resolved spec)
         | _ \<Rightarrow> Inl TypeError)
      else resolve_nested (\<lambda>s. resolveSchemaRefs depth s spec) (own_entries schema))"







text \<open>
  For comparing call depths and passes: \<open>extends rec rec'\<close> holds when \<open>rec'\<close>
  agrees with \<open>rec\<close> wherever \<open>rec\<close> does not run out of stack; \<open>settles f\<close> when
  what \<open>f\<close> returns, if truthy, is returned by \<open>f\<close> as it is; \<open>settled key f result\<close>
  when the step for \<open>key\<close> leaves \<open>result\<close> as it is.
\<close>

definition extends :: "(json \<Rightarrow> error + json) \<Rightarrow> (json \<Rightarrow> error + json) \<Rightarrow> bool" where
  "extends rec rec' \<longleftrightarrow> (\<forall>v. rec v \<noteq> Inl RangeError \<longrightarrow> rec' v = rec v)"

definition settles :: "(json \<Rightarrow> error + json) \<Rightarrow> bool" where
  "settles f \<longleftrightarrow> (\<forall>v v'. f v = Inr v' \<longrightarrow> truthy v' \<longrightarrow> f v' = Inr v')"

definition settled :: "string \<Rightarrow> (json \<Rightarrow> error + json) \<Rightarrow> (string \<times> json) list \<Rightarrow> bool" where
  "settled key f res \<longleftrightarrow> resolve_key key f res = Inr res"

section \<open>Tool compiler\<close>

subsection \<open>Output schema, port and base URL\<close>

text \<open>The loop of \<open>extractOutputSchema\<close> over the success codes: the first response
  with a JSON content gives its schema (or an empty one), tagged with the code.\<close>

fun first_success :: "(string \<times> response) list \<Rightarrow> string list \<Rightarrow> (string \<times> json) list option" where
  "first_success rs [] = None"
| "first_success rs (code # codes) =
     (case map_of rs code of
        None \<Rightarrow> first_success rs codes
      | Some response \<Rightarrow>
          (case resp_json_schema response of
             None \<Rightarrow> first_success rs codes
           | Some schema \<Rightarrow>
               Some (obj_set (case schema of Some sch \<Rightarrow> sch | None \<Rightarrow> [])
                       ''x-response-code'' (JStr code))))"

definition extractOutputSchema :: "operation \<Rightarrow> (string \<times> json) list" where
  "extractOutputSchema op =
     (case responses op of
        None \<Rightarrow> []
      | Some rs \<Rightarrow>
          (case first_success rs [''200'', ''201'', ''204'', ''206''] of
             Some schema \<Rightarrow> schema
           | None \<Rightarrow>
               (case map_of rs ''default'' of
                  None \<Rightarrow> []
                | Some d \<Rightarrow> (case resp_json_schema d of Some (Some sch) \<Rightarrow> sch | _ \<Rightarrow> []))))"

text \<open>\<open>validatePort\<close> on \<open>Number(port)\<close>: \<open>None\<close> is a value that is not an
  integer. The advisory for a privileged port is not an error.\<close>

definition validatePort :: "int option \<Rightarrow> error + int" where
  "validatePort port =
     (case port of
        None \<Rightarrow> Inl InvalidPort
      | Some portNum \<Rightarrow> if portNum < 1 \<or> portNum > 65535 then Inl InvalidPort else Inr portNum)"

text \<open>
  The document as the compiler reads it: the \<open>info\<close> strings, what \<open>getBaseUrl\<close>
  looks at, the path items in order, and the whole document as a tree, against which
  references are resolved. An entry of \<open>servers\<close> is \<open>None\<close> when it is the value
  \<open>null\<close>, and otherwise its \<open>url\<close> (empty when it has none). A path item is \<open>None\<close> when it is the value \<open>null\<close>, and
  otherwise the entries that \<open>Object.entries\<close> enumerates (for a path item that is not
  an object these have index keys, none of which is a verb). The value under a key is
  \<open>None\<close> when it is \<open>null\<close>, and otherwise what the compiler reads of it as an
  operation.
\<close>

type_synonym path_item = "(string \<times> operation option) list option"

record swagger =
  info_title :: "string option"
  info_version :: "string option"
  info_description :: "string option"
  servers :: "string option list"
  host :: "string option"
  schemes :: "string list"
  basePath :: "string option"
  paths :: "(string \<times> path_item) list"
  document :: json

definition or_default :: "string option \<Rightarrow> string \<Rightarrow> string" where
  "or_default v d = (case v of Some s \<Rightarrow> if s \<noteq> [] then s else d | None \<Rightarrow> d)"

text \<open>\<open>getBaseUrl\<close>: reading \<open>url\<close> of a first server that is \<open>null\<close> is a
  \<open>TypeError\<close>.\<close>

definition getBaseUrl :: "swagger \<Rightarrow> error + string" where
  "getBaseUrl spec =
     (case servers spec of
        None # _ \<Rightarrow> Inl TypeError
      | Some url # _ \<Rightarrow> Inr url
      | [] \<Rightarrow>
          (case host spec of
             None \<Rightarrow> Inr []
           | Some h \<Rightarrow>
               if h = [] then Inr []
               else Inr ((case schemes spec of scheme # _ \<Rightarrow> scheme | [] \<Rightarrow> ''https'') @
                         ''://'' @ h @ or_default (basePath spec) [])))"

subsection \<open>The loop over paths and methods\<close>

record tool_entry =
  tool_name :: string
  tool_description :: string
  tool_method :: string
  tool_path :: string
  tool_tags :: "string list"

record manifest =
  manifest_name :: string
  manifest_version :: string
  manifest_description :: string
  manifest_tools :: "tool_entry list"
  manifest_server :: string

text \<open>
  What the loop changes: the set of names in use, the tools the host holds, the tool list
  of the manifest, the counter, and the console with one line per operation tried
  (\<open>None\<close> for a registration, otherwise the exception caught).
\<close>

record compile_state =
  registeredTools :: "string list"
  server_tools :: "string list"
  tools :: "tool_entry list"
  toolCount :: nat
  console :: "(string \<times> error option) list"

text \<open>
  The collaborators and limits of a run: whether the validator library compiles a schema,
  whether the host, holding some tools, accepts one more name, and the call depth the
  engine has for resolving references.
\<close>

record collaborators =
  ajv_compiles :: "json \<Rightarrow> bool"
  host_accepts :: "string list \<Rightarrow> string \<Rightarrow> bool"
  stack_depth :: nat

definition verbs :: "string list" where
  "verbs = [''get'', ''post'', ''put'', ''patch'', ''delete'', ''options'', ''head'']"

definition default_operationId :: "string \<Rightarrow> string \<Rightarrow> string" where
  "default_operationId meth route =
     meth @ ''_'' @ map (\<lambda>c. if c \<in> set ''/{}'' then CHR ''_'' else c) route"

text \<open>
  The body of the \<open>try\<close> for one operation, up to the counter: the state afterwards
  when nothing throws, or the exception with the names in use at that moment (a name is
  added to the set before the steps that may still throw).
\<close>

definition register_operation ::
  "collaborators \<Rightarrow> swagger \<Rightarrow> compile_state \<Rightarrow> string \<Rightarrow> string \<Rightarrow> operation option \<Rightarrow>
   (error \<times> string list) + compile_state" where
  "register_operation env spec st route meth operation =
     (case operation of
        None \<Rightarrow> Inl (TypeError, registeredTools st)
      | Some op \<Rightarrow>
          (let opId = or_default (operationId op) (default_operationId meth route)
           in case sanitizeToolName (toUpperCase meth @ '' '' @ route) of
                Inl e \<Rightarrow> Inl (e, registeredTools st)
              | Inr sanitized \<Rightarrow>
                  (let toolName = (if sanitized \<in> set (registeredTools st)
                                   then sanitized @ '' ('' @ opId @ '')'' else sanitized);
                       used = (if toolName \<in> set (registeredTools st) then registeredTools st
                               else registeredTools st @ [toolName])
                   in case resolveSchemaRefs (stack_depth env) (buildInputSchema op) (document spec) of
                        Inl e \<Rightarrow> Inl (e, used)
                      | Inr resolvedInputSchema \<Rightarrow>
                          (case resolveSchemaRefs (stack_depth env) (JObj (extractOutputSchema op))
                                  (document spec) of
                             Inl e \<Rightarrow> Inl (e, used)
                           | Inr outputSchema \<Rightarrow>
                               if \<not> ajv_compiles env resolvedInputSchema
                               then Inl (SchemaCompileError, used)
                               else if \<not> host_accepts env (server_tools st) toolName
                               then Inl (RegistrationError, used)
                               else Inr \<lparr> registeredTools = used,
                                         server_tools = server_tools st @ [toolName],
                                         tools = tools st @
                                           [\<lparr> tool_name = toolName,
                                              tool_description = or_default (summary op) opId,
                                              tool_method = toUpperCase meth,
                                              tool_path = route,
                                              tool_tags = (case tags op of Some ts \<Rightarrow> ts | None \<Rightarrow> []) \<rparr>],
                                         toolCount = Suc (toolCount st),
                                         console = console st @ [(toolName, None)] \<rparr>))))"

text \<open>One round of the inner loop: a key that is not an HTTP verb is skipped; an
  exception is caught, printed, and the loop goes on.\<close>

definition compile_entry ::
  "collaborators \<Rightarrow> swagger \<Rightarrow> string \<Rightarrow> string \<times> operation option \<Rightarrow> compile_state \<Rightarrow> compile_state" where
  "compile_entry env spec route entry st =
     (if toLowerCase (fst entry) \<notin> set verbs then st
      else case register_operation env spec st route (fst entry) (snd entry) of
             Inr st' \<Rightarrow> st'
           | Inl (e, used) \<Rightarrow>
               st \<lparr> registeredTools := used,
                    console := console st @ [(toUpperCase (fst entry) @ '' '' @ route, Some e)] \<rparr>)"

text \<open>
  The outer loop. \<open>Object.entries(methods)\<close> is evaluated outside the \<open>try\<close>: on a
  path item that is \<open>null\<close> it throws a \<open>TypeError\<close> that nothing catches, and the
  loop, with the call, ends there.
\<close>

fun compile_items ::
  "collaborators \<Rightarrow> swagger \<Rightarrow> (string \<times> path_item) list \<Rightarrow> compile_state \<Rightarrow> error + compile_state" where
  "compile_items env spec [] st = Inr st"
| "compile_items env spec (entry # rest) st =
     (case snd entry of
        None \<Rightarrow> Inl TypeError
      | Some methods \<Rightarrow>
          compile_items env spec rest (fold (compile_entry env spec (fst entry)) methods st))"

definition compile_paths :: "collaborators \<Rightarrow> swagger \<Rightarrow> error + compile_state" where
  "compile_paths env spec =
     compile_items env spec (paths spec)
       \<lparr> registeredTools = [], server_tools = [], tools = [], toolCount = 0, console = [] \<rparr>"

text \<open>
  \<open>createMCPFromSwagger\<close>: the manifest handed to \<open>writeFileSync\<close> when the run gets
  that far (\<open>None\<close> when it does not), and how the call ends.
\<close>

datatype outcome = Throws error | ReturnsNull | ReturnsServer "string list"

definition createMCPFromSwagger ::
  "collaborators \<Rightarrow> swagger \<Rightarrow> bool \<Rightarrow> int option \<Rightarrow> manifest option \<times> outcome" where
  "createMCPFromSwagger env spec manifestOnly port =
     (case validatePort port of
        Inl e \<Rightarrow> (None, Throws e)
      | Inr validatedPort \<Rightarrow>
          (case getBaseUrl spec of
             Inl e \<Rightarrow> (None, Throws e)
           | Inr baseUrl \<Rightarrow>
               if baseUrl = [] then (None, Throws NoBaseUrl)
               else (case compile_paths env spec of
                       Inl e \<Rightarrow> (None, Throws e)
                     | Inr st \<Rightarrow>
                         (let written =
                            \<lparr> manifest_name = or_default (info_title spec) ''swagger-to-mcp'',
                              manifest_version = or_default (info_version spec) ''1.0.0'',
                              manifest_description = or_default (info_description spec)
                                ''MCP server generated from Swagger/OpenAPI'',
                              manifest_tools = tools st,
                              manifest_server = ''http://localhost:'' @ show_int validatedPort \<rparr>
                          in (Some written,
                              if manifestOnly then ReturnsNull
                              else if toolCount st = 0 then Throws NoToolsRegistered
                              else ReturnsServer (server_tools st))))))"

text \<open>The counter, the manifest, the console and the host agree: each registration adds
  one to each.\<close>

definition counted :: "compile_state \<Rightarrow> bool" where
  "counted st \<longleftrightarrow> toolCount st = length (tools st) \<and>
                 toolCount st = length (filter (\<lambda>line. snd line = None) (console st)) \<and>
                 server_tools st = map tool_name (tools st)"

section \<open>Reading an input schema\<close>

text \<open>
  What the input schema is compared with: the schemas of one bucket, each with its
  location written in; the four buckets together, a later location overriding an earlier
  one; the required names of the four buckets in order; and the \<open>properties\<close> and
  \<open>required\<close> members of a schema.
\<close>

definition located :: "location \<Rightarrow> (string \<times> (string \<times> json) list) list \<Rightarrow> (string \<rightharpoonup> json)" where
  "located loc bucket =
     map_of (map (\<lambda>entry. (fst entry,
                    JObj (obj_set (snd entry) ''x-parameter-location'' (JStr (location_name loc)))))
                 bucket)"

definition parameter_properties :: "extracted \<Rightarrow> (string \<rightharpoonup> json)" where
  "parameter_properties ex =
     located Path (buckets ex Path) ++ located Query (buckets ex Query) ++
     located Header (buckets ex Header) ++ located Cookie (buckets ex Cookie)"

definition declared_required :: "extracted \<Rightarrow> json list" where
  "declared_required ex =
     map JStr (required ex Path @ required ex Query @ required ex Header @ required ex Cookie)"


definition schema_required :: "json \<Rightarrow> json list" where
  "schema_required s = (case getp (own_entries s) ''required'' of JArr xs \<Rightarrow> xs | _ \<Rightarrow> [])"

section \<open>Reading a route template\<close>











section \<open>Example operations\<close>

definition petIdParam :: parameter where
  "petIdParam = \<lparr> param_in = Some ''path'', param_name = Some ''petId'',
                   param_schema = Some [(''type'', JStr ''integer'')],
                   param_description = None, param_example = None, param_required = True \<rparr>"

definition getPet :: operation where
  "getPet = \<lparr> operationId = Some ''getPetById'', summary = Some ''Find pet by ID'',
               tags = Some [''pet''], parameters = Some [petIdParam], requestBody = None,
     responses = None \<rparr>"

definition idParam :: parameter where
  "idParam = \<lparr> param_in = Some ''path'', param_name = Some ''id'',
                param_schema = Some [(''type'', JStr ''integer'')],
                param_description = None, param_example = None, param_required = True \<rparr>"

definition petBody :: "(string \<times> json) list" where
  "petBody = [(''type'', JStr ''object''),
              (''properties'', JObj [(''name'', JObj [(''type'', JStr ''string'')])]),
              (''required'', JArr [JStr ''name''])]"

definition updatePet :: operation where
  "updatePet = \<lparr> operationId = Some ''updatePet'', summary = None, tags = None,
                  parameters = Some [idParam],
                  requestBody = Some \<lparr> body_required = True,
                                       body_json_schema = Some (Some petBody) \<rparr>,
     responses = None \<rparr>"

definition sidParam :: parameter where
  "sidParam = \<lparr> param_in = Some ''cookie'', param_name = Some ''sid'',
                 param_schema = Some [(''type'', JStr ''string'')],
                 param_description = None, param_example = None, param_required = False \<rparr>"

definition getProfile :: operation where
  "getProfile = \<lparr> operationId = Some ''getProfile'', summary = None, tags = None,
                   parameters = Some [sidParam], requestBody = None,
     responses = None \<rparr>"

definition putSetting :: operation where
  "putSetting = \<lparr> operationId = Some ''putSetting'', summary = None, tags = None,
                   parameters = None,
                   requestBody = Some \<lparr> body_required = False,
                     body_json_schema = Some (Some
                       [(''oneOf'', JArr [JObj [(''type'', JStr ''string'')],
                                          JObj [(''type'', JStr ''integer'')]])]) \<rparr>,
                   responses = None \<rparr>"


definition addPet :: operation where
  "addPet = \<lparr> operationId = Some ''addPet'', summary = None, tags = None,
               parameters = None,
               requestBody = Some \<lparr> body_required = False,
                                    body_json_schema = Some (Some petBody) \<rparr>,
     responses = None \<rparr>"

definition tagsBody :: "(string \<times> json) list" where
  "tagsBody = [(''type'', JStr ''array''), (''items'', JObj [(''type'', JStr ''string'')])]"

definition setTags :: operation where
  "setTags = \<lparr> operationId = Some ''setTags'', summary = None, tags = None,
                parameters = Some [petIdParam],
                requestBody = Some \<lparr> body_required = False,
                                     body_json_schema = Some (Some tagsBody) \<rparr>,
     responses = None \<rparr>"

text \<open>An operation with two path parameters, declared in the order opposite to the
  route's.\<close>

definition repoParam :: parameter where
  "repoParam = \<lparr> param_in = Some ''path'', param_name = Some ''repo'',
                  param_schema = Some [(''type'', JStr ''string'')],
                  param_description = None, param_example = None, param_required = True \<rparr>"

definition ownerParam :: parameter where
  "ownerParam = \<lparr> param_in = Some ''path'', param_name = Some ''owner'',
                   param_schema = Some [(''type'', JStr ''string'')],
                   param_description = None, param_example = None, param_required = True \<rparr>"

definition getRepo :: operation where
  "getRepo = \<lparr> operationId = Some ''getRepo'', summary = None, tags = None,
                parameters = Some [repoParam, ownerParam], requestBody = None,
                responses = None \<rparr>"

text \<open>An operation with a query parameter.\<close>

definition limitParam :: parameter where
  "limitParam = \<lparr> param_in = Some ''query'', param_name = Some ''limit'',
                   param_schema = Some [(''type'', JStr ''integer'')],
                   param_description = None, param_example = None, param_required = False \<rparr>"

definition listPets :: operation where
  "listPets = \<lparr> operationId = Some ''listPets'', summary = None, tags = None,
                 parameters = Some [limitParam], requestBody = None, responses = None \<rparr>"

text \<open>A request body whose \<open>required\<close> list holds two arrays that look the same and a
  string twice.\<close>

definition oddBody :: "(string \<times> json) list" where
  "oddBody = [(''type'', JStr ''object''),
              (''properties'', JObj [(''a'', JObj [(''type'', JStr ''string'')])]),
              (''required'', JArr [JArr [JStr ''x''], JArr [JStr ''x''], JStr ''a'', JStr ''a''])]"

definition oddRequired :: operation where
  "oddRequired = \<lparr> operationId = Some ''oddRequired'', summary = None, tags = None,
                    parameters = None,
                    requestBody = Some \<lparr> body_required = False,
                                         body_json_schema = Some (Some oddBody) \<rparr>,
                    responses = None \<rparr>"

text \<open>A parameter with a location that is none of the four, and one that has no name
  either.\<close>

definition namelessParam :: parameter where
  "namelessParam = \<lparr> param_in = Some ''formData'', param_name = None,
                      param_schema = None,
                      param_description = None, param_example = None, param_required = False \<rparr>"

definition petBodyParam :: parameter where
  "petBodyParam = \<lparr> param_in = Some ''body'', param_name = Some ''pet'',
                     param_schema = Some [(''type'', JStr ''object'')],
                     param_description = None, param_example = None, param_required = True \<rparr>"

text \<open>A specification document with an object schema, a schema it refers to, a
  recursive object schema and a reference to itself.\<close>

definition petstore :: json where
  "petstore = JObj [(''components'', JObj [(''schemas'', JObj [
      (''Pet'', JObj [(''type'', JStr ''object''),
                      (''properties'', JObj [(''name'', JObj [(''type'', JStr ''string'')]),
                                             (''tag'', JObj [(''$ref'', JStr ''#/components/schemas/Tag'')])])]),
      (''Tag'', JObj [(''type'', JStr ''string'')]),
      (''Node'', JObj [(''type'', JStr ''object''),
                       (''properties'', JObj [(''next'', JObj [(''$ref'', JStr ''#/components/schemas/Node'')])])]),
      (''Loop'', JObj [(''$ref'', JStr ''#/components/schemas/Loop'')])])])]"



text \<open>Documents for the compiler: two whose paths and methods give one tool name twice, one
  whose only operation is \<open>null\<close>, one with a \<open>null\<close> operation before a good
  one, and one with a good path item before a path item that is \<open>null\<close>;
  collaborators that accept everything.\<close>

definition plain_op :: "string \<Rightarrow> operation" where
  "plain_op opId = \<lparr> operationId = Some opId, summary = None, tags = None, parameters = None,
                     requestBody = None, responses = None \<rparr>"

definition lenient :: collaborators where
  "lenient = \<lparr> ajv_compiles = (\<lambda>schema. True), host_accepts = (\<lambda>held name. True),
               stack_depth = 64 \<rparr>"

definition example_api :: "(string \<times> path_item) list \<Rightarrow> swagger" where
  "example_api ps =
     \<lparr> info_title = Some ''Example'', info_version = Some ''1.0.0'', info_description = None,
       servers = [Some ''https://api.example.com''], host = None, schemes = [], basePath = None,
       paths = ps, document = JObj [] \<rparr>"

definition clash_spec :: swagger where
  "clash_spec = example_api
     [(''/a (q)'', Some [(''get'', Some (plain_op ''r''))]),
      (''/a'', Some [(''get'', Some (plain_op ''p'')), (''GET'', Some (plain_op ''q''))])]"

definition case_spec :: swagger where
  "case_spec = example_api
     [(''/a'', Some [(''get'', Some (plain_op ''x'')), (''Get'', Some (plain_op ''x'')),
                    (''GET'', Some (plain_op ''x''))])]"

definition null_spec :: swagger where
  "null_spec = example_api [(''/a'', Some [(''get'', None)])]"

definition mixed_spec :: swagger where
  "mixed_spec = example_api
     [(''/a'', Some [(''parameters'', None), (''get'', None),
                    (''post'', Some (plain_op ''addA''))])]"

definition null_item_spec :: swagger where
  "null_item_spec = example_api
     [(''/a'', Some [(''get'', Some (plain_op ''getA''))]), (''/b'', None)]"

section \<open>Example environments\<close>

definition example_files :: "string \<Rightarrow> file_stat option" where
  "example_files p =
     (if p \<in> set [''/work/specs/api.yaml'', ''/work/escape.yaml'', ''/escape.yaml'',
                  ''/work/specs-evil/api.yaml'']
      then Some \<lparr> stat_isFile = True, stat_size = 2048 \<rparr> else None)"

definition subdir_config :: security_config where
  "subdir_config = defaultSecurityConfig \<lparr> baseDirectory := Some ''specs'' \<rparr>"

definition allowlist_config :: security_config where
  "allowlist_config = defaultSecurityConfig \<lparr> allowedHosts := [''*.example.com'', ''swagger.io''] \<rparr>"

section \<open>Properties of the security gate\<close>

lemmas url_simps = validateURL_def plain_url_parser_def defaultSecurityConfig_def
  allowlist_config_def startsWith_def endsWith_def toLowerCase_def to_lower_char_def
  isPrivateIP_def PRIVATE_IP_RANGES_def range_172_def hostAllowed_def

lemmas posix_simps = validateFilePath_def posix_platform_def posix_resolve_def
  posix_extname_def join_path_def startsWith_def toLowerCase_def to_lower_char_def
  defaultSecurityConfig_def subdir_config_def example_files_def

subsection \<open>The pattern of 172.16.0.0/12\<close>

lemma seven_or_fewer:
  "length h < 7 \<or> (\<exists>c1 c2 c3 c4 c5 c6 c7 r. h = c1 # c2 # c3 # c4 # c5 # c6 # c7 # r)"
proof (cases "length h < 7")
  case False
  then have "7 \<le> length h" by simp
  then obtain c1 h1 where 1: "h = c1 # h1" "6 \<le> length h1" by (cases h) auto
  then obtain c2 h2 where 2: "h1 = c2 # h2" "5 \<le> length h2" by (cases h1) auto
  then obtain c3 h3 where 3: "h2 = c3 # h3" "4 \<le> length h3" by (cases h2) auto
  then obtain c4 h4 where 4: "h3 = c4 # h4" "3 \<le> length h4" by (cases h3) auto
  then obtain c5 h5 where 5: "h4 = c5 # h5" "2 \<le> length h5" by (cases h4) auto
  then obtain c6 h6 where 6: "h5 = c6 # h6" "1 \<le> length h6" by (cases h5) auto
  then obtain c7 h7 where 7: "h6 = c7 # h7" by (cases h6) auto
  show ?thesis using 1 2 3 4 5 6 7 by blast
qed simp

lemma startsWith_length: "startsWith h p \<Longrightarrow> length p \<le> length h"
proof -
  assume "startsWith h p"
  then have "length (take (length p) h) = length p" unfolding startsWith_def by (rule arg_cong)
  then show ?thesis by simp
qed

lemma range_172_short: "length h < 7 \<Longrightarrow> \<not> range_172 h"
proof
  assume l: "length h < 7" and r: "range_172 h"
  from r have s: "startsWith h ''172.''"
    and c: "(case drop 4 h of
         a # b # c # _ \<Rightarrow>
           ((a = CHR ''1'' \<and> b \<in> set ''6789'') \<or>
            (a = CHR ''2'' \<and> b \<in> set ''0123456789'') \<or>
            (a = CHR ''3'' \<and> b \<in> set ''01'')) \<and> c = CHR ''.''
       | _ \<Rightarrow> False)"
    unfolding range_172_def by blast+
  from c obtain a b cc t where "drop 4 h = a # b # cc # t"
    by (auto split: list.splits)
  then have "length (drop 4 h) \<ge> 3" by simp
  then show False using l by simp
qed

lemma startsWith_172:
  assumes "length octet = 2"
  shows "startsWith (c1 # c2 # c3 # c4 # c5 # c6 # c7 # r) (''172.'' @ octet @ ''.'') \<longleftrightarrow>
           (c1 = CHR ''1'' \<and> c2 = CHR ''7'' \<and> c3 = CHR ''2'' \<and> c4 = CHR ''.'' \<and>
            c7 = CHR ''.'') \<and> octet = [c5, c6]"
proof -
  from assms obtain a b where o: "octet = [a, b]"
    by (cases octet; cases "tl octet") auto
  show ?thesis unfolding o by (simp add: startsWith_def) blast
qed

lemma second_octet:
  "[a, b] \<in> set [''16'', ''17'', ''18'', ''19'', ''20'', ''21'', ''22'', ''23'', ''24'',
                  ''25'', ''26'', ''27'', ''28'', ''29'', ''30'', ''31''] \<longleftrightarrow>
     (a = CHR ''1'' \<and> b \<in> set ''6789'') \<or> (a = CHR ''2'' \<and> b \<in> set ''0123456789'') \<or>
     (a = CHR ''3'' \<and> b \<in> set ''01'')"
proof -
  have 1: "[a, b] \<in> set (map (\<lambda>c. [CHR ''1'', c]) ''6789'') \<longleftrightarrow>
             a = CHR ''1'' \<and> b \<in> set ''6789''"
    unfolding set_map by blast
  have 2: "[a, b] \<in> set (map (\<lambda>c. [CHR ''2'', c]) ''0123456789'') \<longleftrightarrow>
             a = CHR ''2'' \<and> b \<in> set ''0123456789''"
    unfolding set_map by blast
  have 3: "[a, b] \<in> set (map (\<lambda>c. [CHR ''3'', c]) ''01'') \<longleftrightarrow>
             a = CHR ''3'' \<and> b \<in> set ''01''"
    unfolding set_map by blast
  have e: "[''16'', ''17'', ''18'', ''19'', ''20'', ''21'', ''22'', ''23'', ''24'',
            ''25'', ''26'', ''27'', ''28'', ''29'', ''30'', ''31''] =
           map (\<lambda>c. [CHR ''1'', c]) ''6789'' @ map (\<lambda>c. [CHR ''2'', c]) ''0123456789'' @
           map (\<lambda>c. [CHR ''3'', c]) ''01''"
    by simp
  show ?thesis unfolding e set_append Un_iff 1 2 3 ..
qed

lemma third_octet_test:
  "(startsWith (c1 # c2 # c3 # c4 # c5 # c6 # c7 # t) ''172.'' \<and>
    (case drop 4 (c1 # c2 # c3 # c4 # c5 # c6 # c7 # t) of
       a # b # c # _ \<Rightarrow> P a b \<and> c = CHR ''.''
     | _ \<Rightarrow> False)) \<longleftrightarrow>
   (c1 = CHR ''1'' \<and> c2 = CHR ''7'' \<and> c3 = CHR ''2'' \<and> c4 = CHR ''.'' \<and> c7 = CHR ''.'') \<and>
   P c5 c6"
  by (simp add: startsWith_def) blast

text \<open>
  The test \<open>range_172\<close> holds exactly of the hostnames that begin with \<open>172.\<close>, a
  second octet from 16 to 31 and a dot: the sixteen strings the regular expression
  \<open>/^172\.(1[6-9]|2\d|3[01])\./\<close> stands for.
\<close>

lemma range_172_iff:
  "range_172 h \<longleftrightarrow>
     (\<exists>octet \<in> set [''16'', ''17'', ''18'', ''19'', ''20'', ''21'', ''22'', ''23'', ''24'',
                      ''25'', ''26'', ''27'', ''28'', ''29'', ''30'', ''31''].
        startsWith h (''172.'' @ octet @ ''.''))"
  (is "?l \<longleftrightarrow> ?r")
proof -
  define octets where "octets = [''16'', ''17'', ''18'', ''19'', ''20'', ''21'', ''22'', ''23'',
     ''24'', ''25'', ''26'', ''27'', ''28'', ''29'', ''30'', ''31'']"
  have two: "length octet = 2" if "octet \<in> set octets" for octet
    using that unfolding octets_def by auto
  have r: "?r \<longleftrightarrow> (\<exists>octet \<in> set octets. startsWith h (''172.'' @ octet @ ''.''))"
    unfolding octets_def ..
  from seven_or_fewer [of h] show ?thesis
  proof
    assume short: "length h < 7"
    have "\<not> ?r"
    proof
      assume ?r
      then obtain octet where o: "octet \<in> set octets"
        and s: "startsWith h (''172.'' @ octet @ ''.'')"
        unfolding r by blast
      from two [OF o] have "7 \<le> length h" using startsWith_length [OF s] by simp
      then show False using short by simp
    qed
    then show ?thesis using range_172_short [OF short] by blast
  next
    assume "\<exists>c1 c2 c3 c4 c5 c6 c7 r. h = c1 # c2 # c3 # c4 # c5 # c6 # c7 # r"
    then obtain c1 c2 c3 c4 c5 c6 c7 t where h: "h = c1 # c2 # c3 # c4 # c5 # c6 # c7 # t"
      by blast
    let ?A = "c1 = CHR ''1'' \<and> c2 = CHR ''7'' \<and> c3 = CHR ''2'' \<and> c4 = CHR ''.'' \<and> c7 = CHR ''.''"
    note r
    also have "(\<exists>octet \<in> set octets. startsWith h (''172.'' @ octet @ ''.'')) \<longleftrightarrow>
        (\<exists>octet \<in> set octets. ?A \<and> octet = [c5, c6])"
      unfolding h by (rule bex_cong [OF refl]) (rule startsWith_172 [OF two])
    also have "\<dots> \<longleftrightarrow> ?A \<and> [c5, c6] \<in> set octets" by blast
    also have "\<dots> \<longleftrightarrow> ?A \<and> ((c5 = CHR ''1'' \<and> c6 \<in> set ''6789'') \<or>
        (c5 = CHR ''2'' \<and> c6 \<in> set ''0123456789'') \<or> (c5 = CHR ''3'' \<and> c6 \<in> set ''01''))"
      unfolding octets_def second_octet ..
    also have "\<dots> \<longleftrightarrow> ?l"
      unfolding h range_172_def
      by (rule third_octet_test [where P = "\<lambda>a b. (a = CHR ''1'' \<and> b \<in> set ''6789'') \<or>
        (a = CHR ''2'' \<and> b \<in> set ''0123456789'') \<or> (a = CHR ''3'' \<and> b \<in> set ''01'')",
        symmetric])
    finally show ?thesis ..
  qed
qed

subsection \<open>validateURL and validateFilePath\<close>

lemma isPrivateIP_iff:
  "isPrivateIP h \<longleftrightarrow>
     startsWith h ''127.'' \<or> startsWith h ''10.'' \<or>
     (\<exists>octet \<in> set [''16'', ''17'', ''18'', ''19'', ''20'', ''21'', ''22'', ''23'', ''24'',
               ''25'', ''26'', ''27'', ''28'', ''29'', ''30'', ''31'']. startsWith h (''172.'' @ octet @ ''.'')) \<or>
     startsWith h ''192.168.'' \<or> startsWith h ''169.254.'' \<or>
     h = ''::1'' \<or> startsWith h ''fe80:'' \<or> startsWith h ''fc00:'' \<or> startsWith h ''fd00:''"
  unfolding isPrivateIP_def PRIVATE_IP_RANGES_def list_ex_Cons_iff list_ex_Nil_iff range_172_iff
  by (simp only: simp_thms)

lemma hostAllowed_iff:
  "hostAllowed hn h \<longleftrightarrow>
     (if startsWith h ''*.'' then hn = drop 2 h \<or> endsWith hn (''.'' @ drop 2 h) else hn = h)"
  by (simp add: hostAllowed_def Let_def)

lemma bracketed_not_private: "startsWith h ''['' \<Longrightarrow> \<not> isPrivateIP h"
proof -
  assume "startsWith h ''[''"
  then obtain t where h: "h = CHR ''['' # t" by (cases h) (simp_all add: startsWith_def)
  show ?thesis
    unfolding h isPrivateIP_def PRIVATE_IP_RANGES_def list_ex_Cons_iff list_ex_Nil_iff range_172_def
    by (simp add: startsWith_def)
qed

text \<open>
  C2. \<open>validateURL\<close> fails when private addresses are blocked and the hostname
  begins with \<open>127.\<close>, \<open>10.\<close>, \<open>172.16.\<close> to \<open>172.31.\<close>, \<open>192.168.\<close> or
  \<open>169.254.\<close>, is \<open>::1\<close>, or begins with \<open>fe80:\<close>, \<open>fc00:\<close> or \<open>fd00:\<close>; it
  fails when the scheme (the protocol without its colon) is not an allowed scheme; it
  fails when a non-empty host allowlist has no entry that the hostname equals or matches
  as a \<open>*.domain\<close> rule. But the hostname of a URL with an IPv6 address is the address
  in brackets, and a hostname that begins with a bracket matches none of the patterns:
  with an allowed scheme and no allowlist such a URL is accepted. Under the default
  configuration \<open>https://[::1]/spec.json\<close> and \<open>https://[fe80::1]/spec.json\<close> come
  back parsed, as \<open>https://api.example.com/spec.json\<close> does, and
  \<open>http://127.0.0.1/spec.json\<close> is rejected for its scheme.
\<close>

theorem validateURL_accepts_bracketed_ipv6:
  "(parse s = Some u \<and> blockPrivateIPs c \<and>
      (startsWith (hostname u) ''127.'' \<or> startsWith (hostname u) ''10.'' \<or>
       (\<exists>octet \<in> set [''16'', ''17'', ''18'', ''19'', ''20'', ''21'', ''22'', ''23'', ''24'',
               ''25'', ''26'', ''27'', ''28'', ''29'', ''30'', ''31'']. startsWith (hostname u) (''172.'' @ octet @ ''.'')) \<or>
       startsWith (hostname u) ''192.168.'' \<or> startsWith (hostname u) ''169.254.'' \<or>
       hostname u = ''::1'' \<or> startsWith (hostname u) ''fe80:'' \<or>
       startsWith (hostname u) ''fc00:'' \<or> startsWith (hostname u) ''fd00:'')
      \<longrightarrow> isl (validateURL parse s c)) \<and>
   (parse s = Some u \<and> butlast (protocol u) \<notin> set (allowedSchemes c)
      \<longrightarrow> validateURL parse s c = Inl SchemeNotAllowed) \<and>
   (parse s = Some u \<and> allowedHosts c \<noteq> [] \<and>
      (\<forall>h \<in> set (allowedHosts c).
          hostname u \<noteq> h \<and>
          \<not> (startsWith h ''*.'' \<and>
             (hostname u = drop 2 h \<or> endsWith (hostname u) (''.'' @ drop 2 h))))
      \<longrightarrow> isl (validateURL parse s c)) \<and>
   (parse s = Some u \<and> butlast (protocol u) \<in> set (allowedSchemes c) \<and>
      allowedHosts c = [] \<and> startsWith (hostname u) ''[''
      \<longrightarrow> validateURL parse s c = Inr u) \<and>
   validateURL plain_url_parser ''https://[::1]/spec.json'' defaultSecurityConfig
     = Inr \<lparr> protocol = ''https:'', hostname = ''[::1]'', href = ''https://[::1]/spec.json'' \<rparr> \<and>
   validateURL plain_url_parser ''https://[fe80::1]/spec.json'' defaultSecurityConfig
     = Inr \<lparr> protocol = ''https:'', hostname = ''[fe80::1]'',
             href = ''https://[fe80::1]/spec.json'' \<rparr> \<and>
   validateURL plain_url_parser ''http://127.0.0.1/spec.json'' defaultSecurityConfig
     = Inl SchemeNotAllowed \<and>
   validateURL plain_url_parser ''https://api.example.com/spec.json'' defaultSecurityConfig
     = Inr \<lparr> protocol = ''https:'', hostname = ''api.example.com'',
             href = ''https://api.example.com/spec.json'' \<rparr>"
proof (intro conjI impI)
  assume a: "parse s = Some u \<and> blockPrivateIPs c \<and>
      (startsWith (hostname u) ''127.'' \<or> startsWith (hostname u) ''10.'' \<or>
       (\<exists>octet \<in> set [''16'', ''17'', ''18'', ''19'', ''20'', ''21'', ''22'', ''23'', ''24'',
               ''25'', ''26'', ''27'', ''28'', ''29'', ''30'', ''31'']. startsWith (hostname u) (''172.'' @ octet @ ''.'')) \<or>
       startsWith (hostname u) ''192.168.'' \<or> startsWith (hostname u) ''169.254.'' \<or>
       hostname u = ''::1'' \<or> startsWith (hostname u) ''fe80:'' \<or>
       startsWith (hostname u) ''fc00:'' \<or> startsWith (hostname u) ''fd00:'')"
  then have "isPrivateIP (hostname u)" unfolding isPrivateIP_iff by (rule_tac conjunct2 [THEN conjunct2])
  then show "isl (validateURL parse s c)" using a by (simp add: validateURL_def)
next
  assume "parse s = Some u \<and> butlast (protocol u) \<notin> set (allowedSchemes c)"
  then show "validateURL parse s c = Inl SchemeNotAllowed" by (simp add: validateURL_def)
next
  assume a: "parse s = Some u \<and> allowedHosts c \<noteq> [] \<and>
      (\<forall>h \<in> set (allowedHosts c).
          hostname u \<noteq> h \<and>
          \<not> (startsWith h ''*.'' \<and>
             (hostname u = drop 2 h \<or> endsWith (hostname u) (''.'' @ drop 2 h))))"
  then have "\<not> list_ex (hostAllowed (hostname u)) (allowedHosts c)"
    unfolding list_ex_iff hostAllowed_iff by (auto split: if_splits)
  then show "isl (validateURL parse s c)" using a by (simp add: validateURL_def)
next
  assume a: "parse s = Some u \<and> butlast (protocol u) \<in> set (allowedSchemes c) \<and>
      allowedHosts c = [] \<and> startsWith (hostname u) ''[''"
  then have "\<not> isPrivateIP (hostname u)" by (simp add: bracketed_not_private)
  then show "validateURL parse s c = Inr u" using a by (simp add: validateURL_def)
qed (simp_all add: url_simps)

theorem validateURL_accepts_bracketed_ipv6_witness:
  "validateURL plain_url_parser ''https://127.0.0.1/spec.json'' defaultSecurityConfig
     = Inl PrivateIPBlocked \<and>
   validateURL plain_url_parser ''https://10.0.0.5/spec.json'' defaultSecurityConfig
     = Inl PrivateIPBlocked \<and>
   validateURL plain_url_parser ''https://172.16.0.1/spec.json'' defaultSecurityConfig
     = Inl PrivateIPBlocked \<and>
   validateURL plain_url_parser ''https://172.31.9.9/spec.json'' defaultSecurityConfig
     = Inl PrivateIPBlocked \<and>
   validateURL plain_url_parser ''https://192.168.1.1/spec.json'' defaultSecurityConfig
     = Inl PrivateIPBlocked \<and>
   validateURL plain_url_parser ''https://169.254.169.254/spec.json'' defaultSecurityConfig
     = Inl PrivateIPBlocked \<and>
   validateURL plain_url_parser ''https://172.32.0.1/spec.json'' defaultSecurityConfig
     = Inr \<lparr> protocol = ''https:'', hostname = ''172.32.0.1'',
             href = ''https://172.32.0.1/spec.json'' \<rparr> \<and>
   validateURL plain_url_parser ''ftp://api.example.com/spec.json'' defaultSecurityConfig
     = Inl SchemeNotAllowed \<and>
   validateURL plain_url_parser ''https://example.org/spec.json'' allowlist_config
     = Inl HostNotAllowed \<and>
   validateURL plain_url_parser ''https://evilexample.com/spec.json'' allowlist_config
     = Inl HostNotAllowed \<and>
   validateURL plain_url_parser ''https://api.example.com/spec.json'' allowlist_config
     = Inr \<lparr> protocol = ''https:'', hostname = ''api.example.com'',
             href = ''https://api.example.com/spec.json'' \<rparr> \<and>
   validateURL plain_url_parser ''https://swagger.io/spec.json'' allowlist_config
     = Inr \<lparr> protocol = ''https:'', hostname = ''swagger.io'',
             href = ''https://swagger.io/spec.json'' \<rparr> \<and>
   validateURL plain_url_parser ''https://[fd00::1]/spec.json'' defaultSecurityConfig
     = Inr \<lparr> protocol = ''https:'', hostname = ''[fd00::1]'',
             href = ''https://[fd00::1]/spec.json'' \<rparr>"
proof -
  let ?u = "\<lambda>h. \<lparr> protocol = ''https:'', hostname = h, href = ''https://'' @ h @ ''/spec.json'' \<rparr>"
  note block = validateURL_accepts_bracketed_ipv6 [where parse = plain_url_parser
      and c = defaultSecurityConfig, THEN conjunct1, rule_format]
  note hosts = validateURL_accepts_bracketed_ipv6 [where parse = plain_url_parser
      and c = allowlist_config, THEN conjunct2, THEN conjunct2, THEN conjunct1, rule_format]
  note scheme = validateURL_accepts_bracketed_ipv6 [where parse = plain_url_parser
      and c = defaultSecurityConfig, THEN conjunct2, THEN conjunct1, rule_format]
  note bracket = validateURL_accepts_bracketed_ipv6 [where parse = plain_url_parser
      and c = defaultSecurityConfig, THEN conjunct2, THEN conjunct2, THEN conjunct2,
      THEN conjunct1, rule_format]
  have 1: "isl (validateURL plain_url_parser ''https://127.0.0.1/spec.json'' defaultSecurityConfig)"
    by (rule block [where u = "?u ''127.0.0.1''"]) (simp add: url_simps)
  have 2: "isl (validateURL plain_url_parser ''https://172.31.9.9/spec.json'' defaultSecurityConfig)"
    by (rule block [where u = "?u ''172.31.9.9''"]) (simp add: url_simps)
  have 3: "isl (validateURL plain_url_parser ''https://evilexample.com/spec.json'' allowlist_config)"
    by (rule hosts [where u = "?u ''evilexample.com''"]) (simp add: url_simps)
  have 4: "validateURL plain_url_parser ''ftp://api.example.com/spec.json'' defaultSecurityConfig
             = Inl SchemeNotAllowed"
    by (rule scheme [where u = "\<lparr> protocol = ''ftp:'', hostname = ''api.example.com'',
          href = ''ftp://api.example.com/spec.json'' \<rparr>"]) (simp add: url_simps)
  have 5: "validateURL plain_url_parser ''https://[fd00::1]/spec.json'' defaultSecurityConfig
             = Inr (?u ''[fd00::1]'')"
    by (rule bracket [where u = "?u ''[fd00::1]''"]) (simp add: url_simps)
  show ?thesis using 1 2 3 4 5 by (simp add: url_simps)
qed

text \<open>
  C6. With a base directory configured, \<open>validateFilePath\<close> fails for every path
  whose resolved form neither starts with the resolved base followed by the separator
  nor equals the resolved base. On a POSIX platform with working directory \<open>/work\<close>
  and base \<open>specs\<close>: \<open>../escape.yaml\<close>, \<open>specs/../escape.yaml\<close> and the
  sibling \<open>specs-evil/api.yaml\<close> are rejected as traversals although the files exist,
  a file directly under the base is accepted, and so is a file that is the base itself.
\<close>

theorem validateFilePath_base_directory:
  "(baseDirectory c = Some base \<and> base \<noteq> [] \<and>
      \<not> startsWith (resolve pf p) (resolve pf base @ sep pf) \<and>
      resolve pf p \<noteq> resolve pf base
      \<longrightarrow> isl (validateFilePath pf p c)) \<and>
   validateFilePath (posix_platform ''/work'' example_files) ''../escape.yaml'' subdir_config
     = Inl PathTraversal \<and>
   validateFilePath (posix_platform ''/work'' example_files) ''specs/../escape.yaml''
     subdir_config = Inl PathTraversal \<and>
   validateFilePath (posix_platform ''/work'' example_files) ''specs-evil/api.yaml''
     subdir_config = Inl PathTraversal \<and>
   validateFilePath (posix_platform ''/work'' example_files) ''specs/api.yaml'' subdir_config
     = Inr ''/work/specs/api.yaml'' \<and>
   validateFilePath (posix_platform ''/work'' example_files) ''specs/api.yaml''
     (defaultSecurityConfig \<lparr> baseDirectory := Some ''/work/specs/api.yaml'' \<rparr>)
     = Inr ''/work/specs/api.yaml''"
proof (intro conjI)
  show "baseDirectory c = Some base \<and> base \<noteq> [] \<and>
      \<not> startsWith (resolve pf p) (resolve pf base @ sep pf) \<and>
      resolve pf p \<noteq> resolve pf base
      \<longrightarrow> isl (validateFilePath pf p c)"
    by (auto simp: validateFilePath_def Let_def split: option.splits)
qed (simp_all add: posix_simps)

theorem validateFilePath_base_directory_witness:
  "baseDirectory subdir_config = Some ''specs'' \<and>
   resolve (posix_platform ''/work'' example_files) ''../escape.yaml'' = ''/escape.yaml'' \<and>
   resolve (posix_platform ''/work'' example_files) ''specs'' = ''/work/specs'' \<and>
   isl (validateFilePath (posix_platform ''/work'' example_files) ''../escape.yaml''
          subdir_config)"
  using validateFilePath_base_directory [of subdir_config "''specs''"
          "posix_platform ''/work'' example_files" "''../escape.yaml''"]
  by (simp add: posix_simps)


section \<open>Properties of the schema extractor\<close>

lemmas example_defs = petIdParam_def getPet_def idParam_def petBody_def updatePet_def
  sidParam_def getProfile_def putSetting_def addPet_def tagsBody_def setTags_def
  petBodyParam_def repoParam_def ownerParam_def getRepo_def oddBody_def oddRequired_def
  namelessParam_def limitParam_def listPets_def

lemmas extractor_defs = extractParameters_def extract_param_def extract_body_def
  paramSchema_def location_of_def empty_extracted_def obj_assign_def getp_def
  buildInputSchema_def add_bucket_def locations_def sameValueZero_def Let_def



subsection \<open>Objects\<close>

lemma map_of_obj_set: "map_of (obj_set kvs k v) = (map_of kvs)(k \<mapsto> v)"
  by (induction kvs) (auto simp: fun_eq_iff)

lemma keys_obj_set:
  "map fst (obj_set kvs k v) = (if k \<in> fst ` set kvs then map fst kvs else map fst kvs @ [k])"
proof (induction kvs)
  case Nil then show ?case by simp
next
  case (Cons kv kvs)
  obtain k' v' where kv: "kv = (k', v')" by (cases kv)
  show ?case using Cons by (cases "k' = k") (simp_all add: kv)
qed

lemma distinct_obj_set: "distinct (map fst kvs) \<Longrightarrow> distinct (map fst (obj_set kvs k v))"
  by (simp add: keys_obj_set)

lemma map_of_obj_assign: "map_of (obj_assign t s) = map_of t ++ map_of (rev s)"
  unfolding obj_assign_def
proof (induction s arbitrary: t)
  case Nil then show ?case by simp
next
  case (Cons kv s)
  obtain k v where kv: "kv = (k, v)" by (cases kv)
  have "map_of (fold (\<lambda>kv acc. obj_set acc (fst kv) (snd kv)) (kv # s) t)
          = (map_of t)(k \<mapsto> v) ++ map_of (rev s)"
    by (simp only: kv fold_simps fst_conv snd_conv Cons.IH map_of_obj_set)
  also have "\<dots> = map_of t ++ map_of (rev (kv # s))"
    by (simp add: kv map_add_upd_left fun_eq_iff map_add_def split: option.splits)
  finally show ?case .
qed

lemma getp_obj_set: "getp (obj_set kvs k v) k' = (if k' = k then v else getp kvs k')"
  by (simp add: getp_def map_of_obj_set)












text \<open>
  C9. \<open>extractParameters\<close> changes the operation it is given: for \<open>updatePet\<close>,
  whose request body is marked required, the body schema of the operation afterwards has
  \<open>required: true\<close> where the document had \<open>required: ["name"]\<close>. The input schema
  built from it then lists \<open>id\<close> as its only required field: \<open>name\<close> is lost.
\<close>

theorem extractParameters_mutates_operation:
  "snd (snd (extractParameters updatePet))
     = updatePet \<lparr> requestBody := Some \<lparr> body_required = True,
         body_json_schema = Some (Some
           [(''type'', JStr ''object''),
            (''properties'', JObj [(''name'', JObj [(''type'', JStr ''string'')])]),
            (''required'', JBool True)]) \<rparr> \<rparr> \<and>
   snd (snd (extractParameters updatePet)) \<noteq> updatePet \<and>
   schema_required (buildInputSchema updatePet) = [JStr ''id'']"
  by (simp add: example_defs extractor_defs schema_required_def)

subsection \<open>The input schema\<close>

lemma map_of_rev_distinct: "distinct (map fst xs) \<Longrightarrow> map_of (rev xs) = map_of xs"
  by (rule map_of_inject_set [THEN iffD2]) (simp_all add: rev_map [symmetric])

lemma add_bucket_assign:
  "add_bucket loc bucket props =
     obj_assign props (map (\<lambda>entry. (fst entry,
        JObj (obj_set (snd entry) ''x-parameter-location'' (JStr (location_name loc))))) bucket)"
  by (simp add: add_bucket_def obj_assign_def fold_map comp_def)

lemma map_of_add_bucket:
  "distinct (map fst bucket) \<Longrightarrow> map_of (add_bucket loc bucket props) = map_of props ++ located loc bucket"
  by (simp add: add_bucket_assign map_of_obj_assign located_def rev_map [symmetric]
        map_of_rev_distinct comp_def flip: rev_map)

lemma distinct_extract_param:
  "distinct (map fst (buckets (fst st) loc)) \<Longrightarrow> distinct (map fst (buckets (fst (extract_param p st)) loc))"
  by (auto simp: extract_param_def Let_def distinct_obj_set split: option.splits)

lemma distinct_fold_extract_param:
  "distinct (map fst (buckets (fst st) loc)) \<Longrightarrow>
   distinct (map fst (buckets (fst (fold extract_param ps st)) loc))"
  by (induction ps arbitrary: st) (simp_all add: distinct_extract_param)

lemma distinct_buckets: "distinct (map fst (buckets (fst (extractParameters op)) loc))"
  using distinct_fold_extract_param [of "(empty_extracted, [])" loc]
  by (simp add: extractParameters_def Let_def empty_extracted_def)

lemma seen_primitive:
  "primitive x \<Longrightarrow> list_ex (sameValueZero x) seen \<longleftrightarrow> x \<in> set seen"
  by (auto simp: list_ex_iff sameValueZero_def)

lemma seen_object: "\<not> primitive x \<Longrightarrow> \<not> list_ex (sameValueZero x) seen"
  by (simp add: list_ex_iff sameValueZero_def)


lemma dedupe_objects:
  "filter (\<lambda>x. \<not> primitive x) (dedupe seen xs)
     = filter (\<lambda>x. \<not> primitive x) seen @ filter (\<lambda>x. \<not> primitive x) xs"
proof (induction xs arbitrary: seen)
  case Nil then show ?case by simp
next
  case (Cons x xs)
  show ?case
    by (cases "primitive x") (simp_all add: Cons.IH seen_object)
qed

lemma dedupe_set: "set (dedupe seen xs) = set seen \<union> set xs"
proof (induction xs arbitrary: seen)
  case Nil then show ?case by simp
next
  case (Cons x xs)
  show ?case
    by (cases "primitive x") (auto simp: Cons.IH seen_object seen_primitive)
qed


lemma props0:
  "map_of (fold (\<lambda>loc acc. add_bucket loc (buckets (fst (extractParameters op)) loc) acc) locations [])
     = parameter_properties (fst (extractParameters op))"
  by (simp add: locations_def map_of_add_bucket distinct_buckets parameter_properties_def)

lemma req0:
  "concat (map (\<lambda>loc. map JStr (required ex loc)) locations) = declared_required ex"
  by (simp add: locations_def declared_required_def)














section \<open>Properties of the request executor\<close>








subsection \<open>What the encoding returns\<close>

text \<open>Every character of an encoded value is unreserved or a percent sign: none is a
  brace, and none is a dollar sign, which is why the replacement is taken as it is.\<close>

lemma hex_digit_unreserved: "k < 16 \<Longrightarrow> unreserved (hex_digit k)"
proof -
  assume "k < 16"
  then have "hex_digit k \<in> set ''0123456789ABCDEF''"
    unfolding hex_digit_def by (intro nth_mem) simp
  then show ?thesis by (auto simp: unreserved_def)
qed

lemma two_bytes: "k < 256 \<Longrightarrow> 192 + k div 64 < 256 \<and> 128 + k mod 64 < 256" for k :: nat
  by arith

lemma utf8_bytes: "byte \<in> set (utf8 c) \<Longrightarrow> byte < 256"
proof -
  have "(of_char c :: nat) < 256" by (rule nat_of_char_less_256)
  moreover assume "byte \<in> set (utf8 c)"
  ultimately show ?thesis
    using two_bytes [of "of_char c"] by (auto simp: utf8_def split: if_splits)
qed

lemma percent_chars:
  "byte < 256 \<Longrightarrow> x \<in> set (percent byte) \<Longrightarrow> unreserved x \<or> x = CHR ''%''"
proof -
  assume "byte < 256"
  then have "byte div 16 < 16" "byte mod 16 < 16" by simp_all
  then have "unreserved (hex_digit (byte div 16))" "unreserved (hex_digit (byte mod 16))"
    by (simp_all only: hex_digit_unreserved)
  moreover assume "x \<in> set (percent byte)"
  ultimately show ?thesis by (auto simp: percent_def)
qed

lemma encode_unit_chars: "x \<in> set (encode_unit c) \<Longrightarrow> unreserved x \<or> x = CHR ''%''"
proof (cases "unreserved c")
  case True
  moreover assume "x \<in> set (encode_unit c)"
  ultimately show ?thesis by (simp add: encode_unit_def)
next
  case False
  moreover assume "x \<in> set (encode_unit c)"
  ultimately obtain byte where "byte \<in> set (utf8 c)" "x \<in> set (percent byte)"
    by (auto simp: encode_unit_def)
  then show ?thesis using utf8_bytes percent_chars by blast
qed

lemma encodeURIComponent_chars:
  "encodeURIComponent v = Some e \<Longrightarrow> x \<in> set e \<Longrightarrow> unreserved x \<or> x = CHR ''%''"
proof -
  assume "encodeURIComponent v = Some e" "x \<in> set e"
  then obtain c where "x \<in> set (encode_unit c)"
    by (auto simp: encodeURIComponent_def)
  then show ?thesis by (rule encode_unit_chars)
qed


lemma encodeURIComponent_no_dollar:
  "encodeURIComponent v = Some e \<Longrightarrow> CHR ''$'' \<notin> set e"
proof
  assume "encodeURIComponent v = Some e" "CHR ''$'' \<in> set e"
  then have "unreserved CHR ''$'' \<or> CHR ''$'' = CHR ''%''" by (rule encodeURIComponent_chars)
  then show False by (simp add: unreserved_def)
qed

subsection \<open>Replacing in a template\<close>















section \<open>Properties of reference resolution\<close>

lemmas resolve_defs = petstore_def refPath_def startsWith_def getp_def resolve_nested_def
  resolve_key_def resolve_entries_def resolve_each_def then_do_def show_nat.simps


lemma obj_set_same: "map_of kvs k = Some v \<Longrightarrow> obj_set kvs k v = kvs"
  by (induction kvs) (auto split: if_splits)

lemma truthy_getp_present: "truthy (getp kvs k) \<Longrightarrow> map_of kvs k = Some (getp kvs k)"
  by (cases "map_of kvs k") (simp_all add: getp_def)

subsection \<open>Deeper stacks\<close>

lemma collect_results_extends:
  assumes "\<And>x. x \<in> set xs \<Longrightarrow> f x \<noteq> Inl RangeError \<Longrightarrow> g x = f x"
    and "collect_results (map f xs) \<noteq> Inl RangeError"
  shows "collect_results (map g xs) = collect_results (map f xs)"
  using assms
proof (induction xs)
  case Nil then show ?case by simp
next
  case (Cons x xs)
  show ?case
  proof (cases "f x")
    case (Inl e)
    then have "e \<noteq> RangeError" using Cons.prems(2) by auto
    then have "g x = f x" using Cons.prems(1) [of x] Inl by simp
    then show ?thesis by (simp add: Inl)
  next
    case (Inr v)
    then have gx: "g x = f x" using Cons.prems(1) [of x] by simp
    have "collect_results (map f xs) \<noteq> Inl RangeError"
      using Cons.prems(2) by (auto simp: Inr split: sum.splits)
    then have "collect_results (map g xs) = collect_results (map f xs)"
      using Cons.IH Cons.prems(1) by simp
    then show ?thesis by (simp add: gx Inr)
  qed
qed

lemma resolve_entries_extends:
  assumes "extends rec rec'" "resolve_entries rec val \<noteq> Inl RangeError"
  shows "resolve_entries rec' val = resolve_entries rec val"
proof -
  let ?f = "\<lambda>rec kv. case rec (snd kv) of Inl e \<Rightarrow> Inl e | Inr v \<Rightarrow> Inr (fst kv, v)"
  have 1: "?f rec' kv = ?f rec kv" if "?f rec kv \<noteq> Inl RangeError" for kv :: "string \<times> json"
  proof -
    have "rec (snd kv) \<noteq> Inl RangeError" using that by (auto split: sum.splits)
    then show ?thesis using assms(1) by (simp add: extends_def)
  qed
  have 2: "collect_results (map (?f rec) (own_entries val)) \<noteq> Inl RangeError"
    using assms(2) by (auto simp: resolve_entries_def split: sum.splits)
  have "collect_results (map (?f rec') (own_entries val)) = collect_results (map (?f rec) (own_entries val))"
    by (rule collect_results_extends) (use 1 2 in auto)
  then show ?thesis by (simp add: resolve_entries_def)
qed

lemma resolve_each_extends:
  assumes "extends rec rec'" "resolve_each rec val \<noteq> Inl RangeError"
  shows "resolve_each rec' val = resolve_each rec val"
proof (cases val)
  case (JArr xs)
  have 2: "collect_results (map rec xs) \<noteq> Inl RangeError"
    using assms(2) by (auto simp: resolve_each_def JArr split: sum.splits)
  have "collect_results (map rec' xs) = collect_results (map rec xs)"
    by (rule collect_results_extends) (use assms(1) 2 in \<open>auto simp: extends_def\<close>)
  then show ?thesis by (simp add: resolve_each_def JArr)
qed (simp_all add: resolve_each_def)

lemma resolve_key_extends:
  assumes "\<And>v. f v \<noteq> Inl RangeError \<Longrightarrow> g v = f v" "resolve_key key f res \<noteq> Inl RangeError"
  shows "resolve_key key g res = resolve_key key f res"
proof (cases "truthy (getp res key)")
  case True
  then have "f (getp res key) \<noteq> Inl RangeError"
    using assms(2) by (auto simp: resolve_key_def split: sum.splits)
  then show ?thesis using assms(1) by (simp add: resolve_key_def)
qed (simp add: resolve_key_def)

lemma then_do_extends:
  assumes "then_do a k \<noteq> Inl RangeError" "a' = a" "\<And>v. a = Inr v \<Longrightarrow> k v \<noteq> Inl RangeError \<Longrightarrow> k' v = k v"
  shows "then_do a' k' = then_do a k"
  using assms by (cases a) (auto simp: then_do_def)

lemma then_do_not_range: "then_do a k \<noteq> Inl RangeError \<Longrightarrow> a \<noteq> Inl RangeError"
  by (cases a) (auto simp: then_do_def)

lemma resolve_nested_extends:
  assumes e: "extends rec rec'" and n: "resolve_nested rec res \<noteq> Inl RangeError"
  shows "resolve_nested rec' res = resolve_nested rec res"
proof -
  have ent: "\<And>v. resolve_entries rec v \<noteq> Inl RangeError \<Longrightarrow> resolve_entries rec' v = resolve_entries rec v"
    using e by (rule resolve_entries_extends)
  have each: "\<And>v. resolve_each rec v \<noteq> Inl RangeError \<Longrightarrow> resolve_each rec' v = resolve_each rec v"
    using e by (rule resolve_each_extends)
  have one: "\<And>v. rec v \<noteq> Inl RangeError \<Longrightarrow> rec' v = rec v"
    using e by (simp add: extends_def)
  show ?thesis
    unfolding resolve_nested_def
    apply (rule then_do_extends)
      apply (use n in \<open>simp add: resolve_nested_def\<close>)
     apply (rule resolve_key_extends [OF ent], assumption)
     apply (use n in \<open>simp add: resolve_nested_def\<close>, erule then_do_not_range)
    apply (rule then_do_extends, assumption)
     apply (rule resolve_key_extends [OF one], assumption, erule then_do_not_range)
    apply (rule then_do_extends, assumption)
     apply (rule resolve_key_extends [OF each], assumption, erule then_do_not_range)
    apply (rule then_do_extends, assumption)
     apply (rule resolve_key_extends [OF each], assumption, erule then_do_not_range)
    apply (rule then_do_extends, assumption)
     apply (rule resolve_key_extends [OF each], assumption, erule then_do_not_range)
    apply (rule refl)
    done
qed

lemma resolveSchemaRefs_Suc:
  "resolveSchemaRefs n s spec \<noteq> Inl RangeError \<Longrightarrow>
   resolveSchemaRefs (Suc n) s spec = resolveSchemaRefs n s spec"
proof (induction n arbitrary: s)
  case 0 then show ?case by simp
next
  case (Suc n)
  have e: "extends (\<lambda>s. resolveSchemaRefs n s spec) (\<lambda>s. resolveSchemaRefs (Suc n) s spec)"
    unfolding extends_def using Suc.IH by blast
  show ?case
  proof (cases "\<not> truthy s \<or> \<not> is_object s")
    case True then show ?thesis by simp
  next
    case obj: False
    show ?thesis
    proof (cases "truthy (member s ''$ref'')")
      case False
      then have "resolve_nested (\<lambda>s. resolveSchemaRefs n s spec) (own_entries s) \<noteq> Inl RangeError"
        using Suc.prems obj by simp
      from resolve_nested_extends [OF e this] show ?thesis
        using obj False by simp
    next
      case True
      show ?thesis
      proof (cases "member s ''$ref''")
        case (JStr ref)
        show ?thesis
        proof (cases "walk spec (refPath ref)")
          case None
          then show ?thesis using obj True JStr by simp
        next
          case (Some t)
          then have "resolveSchemaRefs n t spec \<noteq> Inl RangeError"
            using Suc.prems obj True JStr by simp
          then have "resolveSchemaRefs (Suc n) t spec = resolveSchemaRefs n t spec"
            by (rule Suc.IH)
          then show ?thesis using obj True JStr Some by simp
        qed
      qed (use obj True in simp_all)
    qed
  qed
qed


subsection \<open>Resolved values stay as they are\<close>

lemma collect_results_Inr:
  "collect_results rs = Inr vs \<longleftrightarrow> rs = map Inr vs"
proof (induction rs arbitrary: vs)
  case Nil then show ?case by auto
next
  case (Cons r rs)
  show ?case
  proof (cases r)
    case (Inl e) then show ?thesis by (cases vs) simp_all
  next
    case r: (Inr v)
    show ?thesis
    proof (cases "collect_results rs")
      case (Inl e)
      then have "rs \<noteq> map Inr ws" for ws using Cons.IH [of ws] by simp
      then show ?thesis by (cases vs) (simp_all add: r Inl)
    next
      case cr: (Inr ws)
      have eq: "rs = map Inr ws' \<longleftrightarrow> ws' = ws" for ws'
        using Cons.IH [of ws'] by (auto simp: cr)
      show ?thesis by (cases vs) (auto simp: r cr eq)
    qed
  qed
qed

lemma resolve_entries_settles:
  assumes "\<forall>v v'. rec v = Inr v' \<longrightarrow> rec v' = Inr v'"
  shows "settles (resolve_entries rec)"
  unfolding settles_def
proof (intro allI impI)
  fix val v' assume a: "resolve_entries rec val = Inr v'"
  let ?f = "\<lambda>kv. case rec (snd kv) of Inl e \<Rightarrow> Inl e | Inr v \<Rightarrow> Inr (fst kv, v)"
  from a obtain kvs where kvs: "collect_results (map ?f (own_entries val)) = Inr kvs" "v' = JObj kvs"
    by (auto simp: resolve_entries_def split: sum.splits)
  then have m: "map ?f (own_entries val) = map Inr kvs" by (simp add: collect_results_Inr)
  have "?f kv = Inr kv" if "kv \<in> set kvs" for kv
  proof -
    from that m have "Inr kv \<in> set (map ?f (own_entries val))" by simp
    then obtain e where "?f e = Inr kv" by auto
    then have "rec (snd e) = Inr (snd kv)" "fst e = fst kv" by (auto split: sum.splits)
    then have "rec (snd kv) = Inr (snd kv)" using assms by blast
    then show ?thesis by simp
  qed
  then have "map ?f kvs = map Inr kvs" by simp
  then have "collect_results (map ?f kvs) = Inr kvs" by (simp add: collect_results_Inr)
  then show "resolve_entries rec v' = Inr v'" by (simp add: resolve_entries_def kvs(2))
qed

lemma resolve_each_settles:
  assumes "\<forall>v v'. rec v = Inr v' \<longrightarrow> rec v' = Inr v'"
  shows "settles (resolve_each rec)"
  unfolding settles_def
proof (intro allI impI)
  fix val v' assume a: "resolve_each rec val = Inr v'"
  then obtain xs ys where x: "val = JArr xs" "collect_results (map rec xs) = Inr ys" "v' = JArr ys"
    by (auto simp: resolve_each_def split: json.splits sum.splits)
  then have m: "map rec xs = map Inr ys" by (simp add: collect_results_Inr)
  have "rec y = Inr y" if "y \<in> set ys" for y
  proof -
    from that m have "Inr y \<in> set (map rec xs)" by simp
    then obtain x where "rec x = Inr y" by auto
    then show ?thesis using assms by blast
  qed
  then have "map rec ys = map Inr ys" by simp
  then have "collect_results (map rec ys) = Inr ys" by (simp add: collect_results_Inr)
  then show "resolve_each rec v' = Inr v'" by (simp add: resolve_each_def x(3))
qed

lemma obj_set_twice: "obj_set (obj_set kvs k v) k v = obj_set kvs k v"
  by (rule obj_set_same) (simp add: map_of_obj_set)

lemma resolve_key_settled:
  assumes "resolve_key key f res = Inr res'" "settles f"
  shows "settled key f res'"
proof (cases "truthy (getp res key)")
  case False
  then show ?thesis using assms(1) by (auto simp: settled_def resolve_key_def)
next
  case True
  then obtain v where v: "f (getp res key) = Inr v" "res' = obj_set res key v"
    using assms(1) by (auto simp: resolve_key_def split: sum.splits)
  have g: "getp res' key = v" by (simp add: v(2) getp_obj_set)
  show ?thesis
  proof (cases "truthy v")
    case False
    then show ?thesis by (simp add: settled_def resolve_key_def g)
  next
    case True
    then have "f v = Inr v" using assms(2) v(1) by (auto simp: settles_def)
    then show ?thesis using True
      by (simp add: settled_def resolve_key_def v(2) getp_obj_set obj_set_twice)
  qed
qed

lemma resolve_key_other:
  assumes "resolve_key key' g res = Inr res'" "key' \<noteq> key"
  shows "getp res' key = getp res key"
  using assms by (auto simp: resolve_key_def getp_obj_set split: if_splits sum.splits)

lemma settled_iff:
  "settled key f res \<longleftrightarrow> (truthy (getp res key) \<longrightarrow> f (getp res key) = Inr (getp res key))"
proof (cases "truthy (getp res key)")
  case False then show ?thesis by (simp add: settled_def resolve_key_def)
next
  case True
  have p: "map_of res key = Some (getp res key)" using True by (rule truthy_getp_present)
  show ?thesis
  proof
    assume "settled key f res"
    then obtain v where v: "f (getp res key) = Inr v" "obj_set res key v = res"
      using True by (auto simp: settled_def resolve_key_def split: sum.splits)
    have "getp (obj_set res key v) key = v" by (simp add: getp_obj_set)
    then have "v = getp res key" by (simp add: v(2))
    then show "truthy (getp res key) \<longrightarrow> f (getp res key) = Inr (getp res key)" using v(1) by simp
  next
    assume "truthy (getp res key) \<longrightarrow> f (getp res key) = Inr (getp res key)"
    then show "settled key f res"
      using True by (simp add: settled_def resolve_key_def obj_set_same [OF p])
  qed
qed

lemma settled_other:
  assumes "settled key f res" "resolve_key key' g res = Inr res'" "key' \<noteq> key"
  shows "settled key f res'"
  using assms(1) resolve_key_other [OF assms(2,3)] by (simp add: settled_iff)

lemma then_do_Inr: "then_do a k = Inr y \<longleftrightarrow> (\<exists>v. a = Inr v \<and> k v = Inr y)"
  by (cases a) (simp_all add: then_do_def)

lemma resolve_nested_result:
  assumes "resolve_nested rec res = Inr y" "\<forall>v v'. rec v = Inr v' \<longrightarrow> rec v' = Inr v'"
  shows "\<exists>r5. y = JObj r5 \<and> resolve_nested rec r5 = Inr (JObj r5) \<and>
              getp r5 ''$ref'' = getp res ''$ref''"
proof -
  from assms(1) obtain r1 r2 r3 r4 r5 where
    s1: "resolve_key ''properties'' (resolve_entries rec) res = Inr r1" and
    s2: "resolve_key ''items'' rec r1 = Inr r2" and
    s3: "resolve_key ''allOf'' (resolve_each rec) r2 = Inr r3" and
    s4: "resolve_key ''oneOf'' (resolve_each rec) r3 = Inr r4" and
    s5: "resolve_key ''anyOf'' (resolve_each rec) r4 = Inr r5" and
    y: "y = JObj r5"
    unfolding resolve_nested_def then_do_Inr by blast
  have se: "settles (resolve_entries rec)" and sa: "settles (resolve_each rec)"
    using assms(2) by (rule resolve_entries_settles, rule resolve_each_settles)
  have sr: "settles rec" using assms(2) by (auto simp: settles_def)
  have p1: "settled ''properties'' (resolve_entries rec) r5"
  proof -
    have "settled ''properties'' (resolve_entries rec) r1" by (rule resolve_key_settled [OF s1 se])
    then have "settled ''properties'' (resolve_entries rec) r2" by (rule settled_other [OF _ s2]) simp
    then have "settled ''properties'' (resolve_entries rec) r3" by (rule settled_other [OF _ s3]) simp
    then have "settled ''properties'' (resolve_entries rec) r4" by (rule settled_other [OF _ s4]) simp
    then show ?thesis by (rule settled_other [OF _ s5]) simp
  qed
  have p2: "settled ''items'' rec r5"
  proof -
    have "settled ''items'' rec r2" by (rule resolve_key_settled [OF s2 sr])
    then have "settled ''items'' rec r3" by (rule settled_other [OF _ s3]) simp
    then have "settled ''items'' rec r4" by (rule settled_other [OF _ s4]) simp
    then show ?thesis by (rule settled_other [OF _ s5]) simp
  qed
  have p3: "settled ''allOf'' (resolve_each rec) r5"
  proof -
    have "settled ''allOf'' (resolve_each rec) r3" by (rule resolve_key_settled [OF s3 sa])
    then have "settled ''allOf'' (resolve_each rec) r4" by (rule settled_other [OF _ s4]) simp
    then show ?thesis by (rule settled_other [OF _ s5]) simp
  qed
  have p4: "settled ''oneOf'' (resolve_each rec) r5"
  proof -
    have "settled ''oneOf'' (resolve_each rec) r4" by (rule resolve_key_settled [OF s4 sa])
    then show ?thesis by (rule settled_other [OF _ s5]) simp
  qed
  have p5: "settled ''anyOf'' (resolve_each rec) r5"
    by (rule resolve_key_settled [OF s5 sa])
  have "resolve_nested rec r5 = Inr (JObj r5)"
    using p1 p2 p3 p4 p5 by (simp add: resolve_nested_def settled_def then_do_def)
  moreover have "getp r5 ''$ref'' = getp res ''$ref''"
    using resolve_key_other [OF s1, of "''$ref''"] resolve_key_other [OF s2, of "''$ref''"]
      resolve_key_other [OF s3, of "''$ref''"] resolve_key_other [OF s4, of "''$ref''"]
      resolve_key_other [OF s5, of "''$ref''"] by simp
  ultimately show ?thesis using y by blast
qed

lemma member_own_entries: "is_object s \<Longrightarrow> k \<noteq> ''length'' \<Longrightarrow> member s k = getp (own_entries s) k"
  by (cases s) simp_all

lemma resolveSchemaRefs_fixed:
  "resolveSchemaRefs n s spec = Inr r \<Longrightarrow> resolveSchemaRefs n r spec = Inr r"
proof (induction n arbitrary: s r)
  case 0 then show ?case by simp
next
  case (Suc n)
  have ih: "\<forall>v v'. resolveSchemaRefs n v spec = Inr v' \<longrightarrow> resolveSchemaRefs n v' spec = Inr v'"
    using Suc.IH by blast
  show ?case
  proof (cases "\<not> truthy s \<or> \<not> is_object s")
    case True
    then have "r = s" using Suc.prems by simp
    then show ?thesis using True by simp
  next
    case obj: False
    show ?thesis
    proof (cases "truthy (member s ''$ref'')")
      case False
      then have "resolve_nested (\<lambda>s. resolveSchemaRefs n s spec) (own_entries s) = Inr r"
        using Suc.prems obj by simp
      from resolve_nested_result [OF this ih] obtain r5 where
        r5: "r = JObj r5" "resolve_nested (\<lambda>s. resolveSchemaRefs n s spec) r5 = Inr (JObj r5)"
            "getp r5 ''$ref'' = getp (own_entries s) ''$ref''"
        by blast
      have "member s ''$ref'' = getp (own_entries s) ''$ref''"
        using obj by (intro member_own_entries) simp_all
      then have "\<not> truthy (getp r5 ''$ref'')" using False r5(3) by simp
      then show ?thesis by (simp add: r5(1,2))
    next
      case True
      show ?thesis
      proof (cases "member s ''$ref''")
        case (JStr ref)
        show ?thesis
        proof (cases "walk spec (refPath ref)")
          case None
          then have "r = s" using Suc.prems obj True JStr by simp
          then show ?thesis using Suc.prems by simp
        next
          case (Some t)
          then have "resolveSchemaRefs n t spec = Inr r"
            using Suc.prems obj True JStr by simp
          then have "resolveSchemaRefs n r spec = Inr r" by (rule Suc.IH)
          then show ?thesis using resolveSchemaRefs_Suc [of n r spec] by simp
        qed
      qed (use Suc.prems obj True in simp_all)
    qed
  qed
qed


text \<open>
  Resolving the result of a resolution, at the same depth, returns it as it is: the two
  passes in sequence are the one pass, also when the one pass throws.
\<close>

lemma resolveSchemaRefs_idempotent:
  "then_do (resolveSchemaRefs n s spec) (\<lambda>r. resolveSchemaRefs n r spec)
     = resolveSchemaRefs n s spec"
  by (cases "resolveSchemaRefs n s spec") (simp_all add: then_do_def resolveSchemaRefs_fixed)

text \<open>
  C7. A schema with no resolvable reference is not always returned as it is. A reference
  whose last segment names nothing (\<open>#/components/schemas/Missing\<close>) is unresolvable,
  and resolving it returns \<open>undefined\<close>, not the schema; an \<open>items\<close> array (a tuple
  schema, no reference in it) comes back as an object keyed \<open>0\<close>, \<open>1\<close>. Both hold at
  every call depth that suffices.
\<close>

theorem resolveSchemaRefs_changes_unresolvable:
  "resolveSchemaRefs (Suc (Suc n)) (JObj [(''$ref'', JStr ''#/components/schemas/Missing'')]) petstore
     = Inr JUndefined \<and>
   resolveSchemaRefs (Suc (Suc (Suc n)))
     (JObj [(''type'', JStr ''array''),
            (''items'', JArr [JObj [(''type'', JStr ''string'')], JObj [(''type'', JStr ''integer'')]])])
     petstore
     = Inr (JObj [(''type'', JStr ''array''),
                  (''items'', JObj [(''0'', JObj [(''type'', JStr ''string'')]),
                                    (''1'', JObj [(''type'', JStr ''integer'')])])])"
  by (simp add: resolve_defs)

theorem resolveSchemaRefs_changes_unresolvable_witness:
  "resolveSchemaRefs (Suc (Suc 0)) (JObj [(''$ref'', JStr ''#/components/schemas/Missing'')])
     petstore = Inr JUndefined \<and>
   resolveSchemaRefs (Suc (Suc (Suc 0)))
     (JObj [(''type'', JStr ''array''),
            (''items'', JArr [JObj [(''type'', JStr ''string'')], JObj [(''type'', JStr ''integer'')]])])
     petstore
     = Inr (JObj [(''type'', JStr ''array''),
                  (''items'', JObj [(''0'', JObj [(''type'', JStr ''string'')]),
                                    (''1'', JObj [(''type'', JStr ''integer'')])])])"
  using resolveSchemaRefs_changes_unresolvable [of 0] by simp

section \<open>Termination of reference resolution\<close>

subsection \<open>Cyclic chains\<close>





subsection \<open>What a call reaches\<close>











subsection \<open>Enough stack\<close>












lemma leaf_returns: "\<not> truthy x \<or> \<not> is_object x \<Longrightarrow> resolveSchemaRefs (Suc 0) x spec = Inr x"
  by simp








section \<open>Properties of the tool compiler\<close>

lemma register_operation_Inr:
  assumes "register_operation env spec st route meth operation = Inr st'"
  shows "\<exists>t. tools st' = tools st @ [t] \<and> tool_path t = route \<and> tool_method t = toUpperCase meth \<and>
             toolCount st' = Suc (toolCount st) \<and>
             console st' = console st @ [(tool_name t, None)] \<and>
             server_tools st' = server_tools st @ [tool_name t]"
proof (cases operation)
  case None then show ?thesis using assms by (simp add: register_operation_def)
next
  case (Some op)
  show ?thesis
  proof (cases "sanitizeToolName (toUpperCase meth @ '' '' @ route)")
    case (Inl e) then show ?thesis using assms Some by (simp add: register_operation_def Let_def)
  next
    case (Inr sanitized)
    show ?thesis
      using assms Some Inr
      by (cases "resolveSchemaRefs (stack_depth env) (buildInputSchema op) (document spec)";
          cases "resolveSchemaRefs (stack_depth env) (JObj (extractOutputSchema op)) (document spec)")
         (auto simp: register_operation_def Let_def split: if_splits)
  qed
qed

lemma compile_entry_skip:
  "toLowerCase (fst entry) \<notin> set verbs \<Longrightarrow> compile_entry env spec route entry st = st"
  by (simp add: compile_entry_def)

lemma compile_entry_verb:
  assumes "toLowerCase (fst entry) \<in> set verbs"
  shows "(\<exists>e. tools (compile_entry env spec route entry st) = tools st \<and>
              toolCount (compile_entry env spec route entry st) = toolCount st \<and>
              server_tools (compile_entry env spec route entry st) = server_tools st \<and>
              console (compile_entry env spec route entry st)
                = console st @ [(toUpperCase (fst entry) @ '' '' @ route, Some e)]) \<or>
         (\<exists>t. tools (compile_entry env spec route entry st) = tools st @ [t] \<and>
              tool_path t = route \<and> tool_method t = toUpperCase (fst entry) \<and>
              toolCount (compile_entry env spec route entry st) = Suc (toolCount st) \<and>
              server_tools (compile_entry env spec route entry st) = server_tools st @ [tool_name t] \<and>
              console (compile_entry env spec route entry st) = console st @ [(tool_name t, None)])"
proof (cases "register_operation env spec st route (fst entry) (snd entry)")
  case (Inl failure)
  then show ?thesis using assms by (cases failure) (simp add: compile_entry_def)
next
  case (Inr st')
  then have "compile_entry env spec route entry st = st'" using assms by (simp add: compile_entry_def)
  then show ?thesis using register_operation_Inr [OF Inr] by blast
qed

lemma counted_entry:
  assumes "counted st"
  shows "counted (compile_entry env spec route entry st)"
proof (cases "toLowerCase (fst entry) \<in> set verbs")
  case False then show ?thesis using assms by (simp add: compile_entry_skip)
next
  case True
  show ?thesis using assms compile_entry_verb [OF True, of env spec route st]
    by (auto simp: counted_def)
qed

lemma console_entry:
  "length (console (compile_entry env spec route entry st))
     = length (console st) + (if toLowerCase (fst entry) \<in> set verbs then 1 else 0)"
proof (cases "toLowerCase (fst entry) \<in> set verbs")
  case False then show ?thesis by (simp add: compile_entry_skip)
next
  case True
  then show ?thesis using compile_entry_verb [OF True, of env spec route st] by auto
qed

lemma counted_entries: "counted st \<Longrightarrow> counted (fold (compile_entry env spec route) entries st)"
  by (induction entries arbitrary: st) (simp_all add: counted_entry)

lemma console_entries:
  "length (console (fold (compile_entry env spec route) entries st))
     = length (console st) + length (filter (\<lambda>entry. toLowerCase (fst entry) \<in> set verbs) entries)"
  by (induction entries arbitrary: st) (simp_all add: console_entry)

lemma compile_items_Inr_iff:
  "(\<exists>st'. compile_items env spec ps st = Inr st') \<longleftrightarrow> (\<forall>item \<in> set ps. snd item \<noteq> None)"
proof (induction ps arbitrary: st)
  case Nil then show ?case by simp
next
  case (Cons item ps)
  show ?case
  proof (cases "snd item")
    case None then show ?thesis by simp
  next
    case (Some methods)
    then show ?thesis
      using Cons.IH [of "fold (compile_entry env spec (fst item)) methods st"] by simp
  qed
qed

lemma compile_items_Inl: "compile_items env spec ps st = Inl e \<Longrightarrow> e = TypeError"
proof (induction ps arbitrary: st)
  case Nil then show ?case by simp
next
  case (Cons item ps)
  then show ?case by (cases "snd item") auto
qed

lemma counted_items:
  "compile_items env spec ps st = Inr st' \<Longrightarrow> counted st \<Longrightarrow> counted st'"
proof (induction ps arbitrary: st)
  case Nil then show ?case by simp
next
  case (Cons item ps)
  show ?case
  proof (cases "snd item")
    case None then show ?thesis using Cons.prems by simp
  next
    case (Some methods)
    then have step: "compile_items env spec ps (fold (compile_entry env spec (fst item)) methods st) = Inr st'"
      using Cons.prems(1) by simp
    have "counted (fold (compile_entry env spec (fst item)) methods st)"
      using Cons.prems(2) by (rule counted_entries)
    then show ?thesis by (rule Cons.IH [OF step])
  qed
qed

lemma console_items:
  "compile_items env spec ps st = Inr st' \<Longrightarrow>
   length (console st')
     = length (console st) +
       length (filter (\<lambda>entry. toLowerCase (fst entry) \<in> set verbs)
                 (concat (map (\<lambda>item. case snd item of Some methods \<Rightarrow> methods | None \<Rightarrow> []) ps)))"
proof (induction ps arbitrary: st)
  case Nil then show ?case by simp
next
  case (Cons item ps)
  show ?case
  proof (cases "snd item")
    case None then show ?thesis using Cons.prems by simp
  next
    case (Some methods)
    then have "compile_items env spec ps (fold (compile_entry env spec (fst item)) methods st) = Inr st'"
      using Cons.prems by simp
    then show ?thesis
      using Cons.IH [of "fold (compile_entry env spec (fst item)) methods st"]
      by (simp add: Some console_entries)
  qed
qed

lemma counted_compile_paths: "compile_paths env spec = Inr st \<Longrightarrow> counted st"
  unfolding compile_paths_def by (erule counted_items) (simp add: counted_def)

lemma console_compile_paths:
  "compile_paths env spec = Inr st \<Longrightarrow>
   length (console st)
     = length (filter (\<lambda>entry. toLowerCase (fst entry) \<in> set verbs)
                 (concat (map (\<lambda>item. case snd item of Some methods \<Rightarrow> methods | None \<Rightarrow> [])
                              (paths spec))))"
  unfolding compile_paths_def using console_items by fastforce

lemma compile_paths_Inr_iff:
  "(\<exists>st. compile_paths env spec = Inr st) \<longleftrightarrow> (\<forall>item \<in> set (paths spec). snd item \<noteq> None)"
  unfolding compile_paths_def by (rule compile_items_Inr_iff)

lemma none_registered:
  assumes "compile_paths env spec = Inr st" "\<forall>line \<in> set (console st). snd line \<noteq> None"
  shows "toolCount st = 0" "tools st = []"
proof -
  have "filter (\<lambda>line. snd line = None) (console st) = []"
    using assms(2) by (simp add: filter_empty_conv)
  moreover have "toolCount st = length (filter (\<lambda>line. snd line = None) (console st))"
    and "toolCount st = length (tools st)"
    using counted_compile_paths [OF assms(1)] unfolding counted_def by blast+
  ultimately show "toolCount st = 0" "tools st = []" by simp_all
qed

lemma some_registered:
  assumes "compile_paths env spec = Inr st" "\<exists>line \<in> set (console st). snd line = None"
  shows "toolCount st \<noteq> 0" "server_tools st = map tool_name (tools st)"
proof -
  have "filter (\<lambda>line. snd line = None) (console st) \<noteq> []"
    using assms(2) by (simp add: filter_empty_conv)
  moreover have "toolCount st = length (filter (\<lambda>line. snd line = None) (console st))"
    and "server_tools st = map tool_name (tools st)"
    using counted_compile_paths [OF assms(1)] unfolding counted_def by blast+
  ultimately show "toolCount st \<noteq> 0" "server_tools st = map tool_name (tools st)" by simp_all
qed

lemma null_spec_console:
  "map_sum id console (compile_paths lenient null_spec) = Inr [(''GET /a'', Some TypeError)]"
  by code_simp

lemma mixed_spec_console:
  "map_sum id console (compile_paths lenient mixed_spec)
     = Inr [(''GET /a'', Some TypeError), (''POST /a'', None)]"
  by code_simp

text \<open>
  A path item that is \<open>null\<close> ends the call with a \<open>TypeError\<close>, in either mode and
  whatever the other path items are, before a manifest is written. In
  \<open>null_item_spec\<close> the operation of the first path item had been registered.
\<close>

lemma createMCPFromSwagger_null_path_item:
  assumes "validatePort port = Inr p" "getBaseUrl spec = Inr baseUrl" "baseUrl \<noteq> []"
    "\<exists>item \<in> set (paths spec). snd item = None"
  shows "createMCPFromSwagger env spec manifestOnly port = (None, Throws TypeError)"
proof -
  have "\<not> (\<exists>st. compile_paths env spec = Inr st)"
    unfolding compile_paths_Inr_iff using assms(4) by blast
  then obtain e where e: "compile_paths env spec = Inl e"
    by (cases "compile_paths env spec") auto
  then have "e = TypeError" unfolding compile_paths_def by (rule compile_items_Inl)
  then show ?thesis using assms(1,2,3) e by (simp add: createMCPFromSwagger_def)
qed

lemma null_item_spec_throws:
  "createMCPFromSwagger lenient null_item_spec False (Some 4000) = (None, Throws TypeError)"
  "createMCPFromSwagger lenient null_item_spec True (Some 4000) = (None, Throws TypeError)"
  by code_simp+

lemma sanitizeToolName_nonempty: "sanitizeToolName name = Inr s \<Longrightarrow> s \<noteq> []"
  by (auto simp: sanitizeToolName_def Let_def split: if_splits)

lemma register_operation_name:
  assumes "register_operation env spec st route meth operation = Inr st'"
  shows "\<exists>t. tools st' = tools st @ [t] \<and> tool_name t \<noteq> []"
proof (cases operation)
  case None then show ?thesis using assms by (simp add: register_operation_def)
next
  case (Some op)
  show ?thesis
  proof (cases "sanitizeToolName (toUpperCase meth @ '' '' @ route)")
    case (Inl e) then show ?thesis using assms Some by (simp add: register_operation_def Let_def)
  next
    case (Inr sanitized)
    then have "sanitized \<noteq> []" by (rule sanitizeToolName_nonempty)
    then show ?thesis
      using assms Some Inr
      by (cases "resolveSchemaRefs (stack_depth env) (buildInputSchema op) (document spec)";
          cases "resolveSchemaRefs (stack_depth env) (JObj (extractOutputSchema op)) (document spec)")
         (auto simp: register_operation_def Let_def split: if_splits)
  qed
qed

lemma named_entry:
  assumes "[] \<notin> tool_name ` set (tools st)"
  shows "[] \<notin> tool_name ` set (tools (compile_entry env spec route entry st))"
proof (cases "toLowerCase (fst entry) \<in> set verbs")
  case False then show ?thesis using assms by (simp add: compile_entry_skip)
next
  case True
  show ?thesis
  proof (cases "register_operation env spec st route (fst entry) (snd entry)")
    case (Inl failure)
    then show ?thesis using assms True by (cases failure) (simp add: compile_entry_def)
  next
    case (Inr st')
    then have "compile_entry env spec route entry st = st'" using True by (simp add: compile_entry_def)
    then show ?thesis using register_operation_name [OF Inr] assms by auto
  qed
qed

lemma named_entries:
  "[] \<notin> tool_name ` set (tools st) \<Longrightarrow>
   [] \<notin> tool_name ` set (tools (fold (compile_entry env spec route) entries st))"
  by (induction entries arbitrary: st) (simp_all add: named_entry)

lemma named_items:
  "compile_items env spec ps st = Inr st' \<Longrightarrow> [] \<notin> tool_name ` set (tools st) \<Longrightarrow>
   [] \<notin> tool_name ` set (tools st')"
proof (induction ps arbitrary: st)
  case Nil then show ?case by simp
next
  case (Cons item ps)
  show ?case
  proof (cases "snd item")
    case None then show ?thesis using Cons.prems by simp
  next
    case (Some methods)
    then have step: "compile_items env spec ps (fold (compile_entry env spec (fst item)) methods st) = Inr st'"
      using Cons.prems(1) by simp
    have "[] \<notin> tool_name ` set (tools (fold (compile_entry env spec (fst item)) methods st))"
      using Cons.prems(2) by (rule named_entries)
    then show ?thesis by (rule Cons.IH [OF step])
  qed
qed

lemma tool_names_nonempty:
  "compile_paths env spec = Inr st \<Longrightarrow> [] \<notin> tool_name ` set (tools st)"
  unfolding compile_paths_def by (erule named_items) simp


text \<open>
  C1. The names in a manifest can repeat. In \<open>clash_spec\<close> the path \<open>/a (q)\<close> has a
  \<open>get\<close> and the path \<open>/a\<close> has a \<open>get\<close> and a \<open>GET\<close> with operation identifier
  \<open>q\<close>: the third operation's name \<open>GET /a\<close> is taken, it becomes \<open>GET /a (q)\<close>, and
  that is the first operation's name. In \<open>case_spec\<close> three spellings of one method on
  one path carry the same identifier, and the second and third get the same name. The
  name built by appending the identifier is not looked up in the set of names in use.
\<close>

theorem createMCPFromSwagger_repeats_name:
  "map_option (\<lambda>m. map tool_name (manifest_tools m))
      (fst (createMCPFromSwagger lenient clash_spec False (Some 4000)))
     = Some [''GET /a (q)'', ''GET /a'', ''GET /a (q)''] \<and>
   map_option (\<lambda>m. map tool_name (manifest_tools m))
      (fst (createMCPFromSwagger lenient case_spec False (Some 4000)))
     = Some [''GET /a'', ''GET /a (x)'', ''GET /a (x)'']"
  by code_simp

theorem createMCPFromSwagger_repeats_name_witness:
  "\<exists>names. map_option (\<lambda>m. map tool_name (manifest_tools m))
              (fst (createMCPFromSwagger lenient clash_spec False (Some 4000))) = Some names \<and>
           \<not> distinct names"
proof -
  have e: "map_option (\<lambda>m. map tool_name (manifest_tools m))
              (fst (createMCPFromSwagger lenient clash_spec False (Some 4000)))
            = Some [''GET /a (q)'', ''GET /a'', ''GET /a (q)'']"
    using createMCPFromSwagger_repeats_name by (rule conjunct1)
  have nd: "\<not> distinct [''GET /a (q)'', ''GET /a'', ''GET /a (q)'']" by simp
  show ?thesis by (rule exI [of _ "[''GET /a (q)'', ''GET /a'', ''GET /a (q)'']"]) (rule conjI [OF e nd])
qed


text \<open>
  C5, as stated, fails: in manifest-only mode a document whose only operation fails to
  register gives a manifest without tools and the call returns \<open>null\<close>; nothing is
  thrown.
\<close>

theorem createMCPFromSwagger_manifest_only_counterexample:
  "createMCPFromSwagger lenient null_spec True (Some 4000)
     = (Some \<lparr> manifest_name = ''Example'', manifest_version = ''1.0.0'',
               manifest_description = ''MCP server generated from Swagger/OpenAPI'',
               manifest_tools = [], manifest_server = ''http://localhost:4000'' \<rparr>,
        ReturnsNull)"
  by code_simp


text \<open>
  C5, amended. Take a document none of whose path items is \<open>null\<close>, a valid port and
  a base URL that is found and not empty. Then the loop over the paths comes to its end and the
  manifest is written. When manifest-only mode is off and every operation tried has
  failed, the manifest has no tools and the call ends with the no-tools error; in
  manifest-only mode the call returns \<open>null\<close>, tools or not; and when manifest-only mode
  is off and some operation was registered, the server with the registered tools is
  returned. The loop goes on after a failure: the console has one line for every entry of
  every path item whose key is an HTTP verb, the manifest has one tool for every line that
  is a registration, and the counter is the number of tools. An operation whose
  registration throws changes the names in use and the console and nothing else.
\<close>

theorem createMCPFromSwagger_no_tools:
  "(validatePort port = Inr p \<and> getBaseUrl spec = Inr baseUrl \<and> baseUrl \<noteq> [] \<and>
    (\<forall>item \<in> set (paths spec). snd item \<noteq> None) \<longrightarrow>
      (\<exists>st. compile_paths env spec = Inr st \<and>
         (\<not> manifestOnly \<and> (\<forall>line \<in> set (console st). snd line \<noteq> None) \<longrightarrow>
            map_option manifest_tools (fst (createMCPFromSwagger env spec manifestOnly port))
              = Some [] \<and>
            snd (createMCPFromSwagger env spec manifestOnly port) = Throws NoToolsRegistered) \<and>
         (manifestOnly \<longrightarrow>
            map_option manifest_tools (fst (createMCPFromSwagger env spec manifestOnly port))
              = Some (tools st) \<and>
            snd (createMCPFromSwagger env spec manifestOnly port) = ReturnsNull) \<and>
         (\<not> manifestOnly \<and> (\<exists>line \<in> set (console st). snd line = None) \<longrightarrow>
            map_option manifest_tools (fst (createMCPFromSwagger env spec manifestOnly port))
              = Some (tools st) \<and>
            snd (createMCPFromSwagger env spec manifestOnly port)
              = ReturnsServer (map tool_name (tools st))) \<and>
         length (console st)
           = length (filter (\<lambda>entry. toLowerCase (fst entry) \<in> set verbs)
               (concat (map (\<lambda>item. case snd item of Some methods \<Rightarrow> methods | None \<Rightarrow> [])
                            (paths spec)))) \<and>
         length (tools st) = length (filter (\<lambda>line. snd line = None) (console st)) \<and>
         toolCount st = length (tools st))) \<and>
   (toLowerCase (fst entry) \<in> set verbs \<and>
    register_operation env spec st0 route (fst entry) (snd entry) = Inl (e, used) \<longrightarrow>
      compile_entry env spec route entry st0
        = st0 \<lparr> registeredTools := used,
                console := console st0 @ [(toUpperCase (fst entry) @ '' '' @ route, Some e)] \<rparr>)"
proof (intro conjI impI)
  assume a: "validatePort port = Inr p \<and> getBaseUrl spec = Inr baseUrl \<and> baseUrl \<noteq> [] \<and>
    (\<forall>item \<in> set (paths spec). snd item \<noteq> None)"
  then obtain st where st: "compile_paths env spec = Inr st"
    using compile_paths_Inr_iff [of env spec] by blast
  have run: "createMCPFromSwagger env spec manifestOnly port
      = (Some \<lparr> manifest_name = or_default (info_title spec) ''swagger-to-mcp'',
                manifest_version = or_default (info_version spec) ''1.0.0'',
                manifest_description = or_default (info_description spec)
                  ''MCP server generated from Swagger/OpenAPI'',
                manifest_tools = tools st,
                manifest_server = ''http://localhost:'' @ show_int p \<rparr>,
         if manifestOnly then ReturnsNull
         else if toolCount st = 0 then Throws NoToolsRegistered
         else ReturnsServer (server_tools st))"
    using a st by (simp add: createMCPFromSwagger_def Let_def)
  have 1: "map_option manifest_tools (fst (createMCPFromSwagger env spec manifestOnly port))
              = Some [] \<and>
           snd (createMCPFromSwagger env spec manifestOnly port) = Throws NoToolsRegistered"
    if "\<not> manifestOnly \<and> (\<forall>line \<in> set (console st). snd line \<noteq> None)"
    using that none_registered [OF st] unfolding run by simp
  have 2: "map_option manifest_tools (fst (createMCPFromSwagger env spec manifestOnly port))
              = Some (tools st) \<and>
           snd (createMCPFromSwagger env spec manifestOnly port) = ReturnsNull"
    if manifestOnly
    using that unfolding run by simp
  have 3: "map_option manifest_tools (fst (createMCPFromSwagger env spec manifestOnly port))
              = Some (tools st) \<and>
           snd (createMCPFromSwagger env spec manifestOnly port)
              = ReturnsServer (map tool_name (tools st))"
    if "\<not> manifestOnly \<and> (\<exists>line \<in> set (console st). snd line = None)"
    using that some_registered [OF st] unfolding run by simp
  have 4: "length (console st)
           = length (filter (\<lambda>entry. toLowerCase (fst entry) \<in> set verbs)
               (concat (map (\<lambda>item. case snd item of Some methods \<Rightarrow> methods | None \<Rightarrow> [])
                            (paths spec))))"
    by (rule console_compile_paths [OF st])
  have 5: "length (tools st) = length (filter (\<lambda>line. snd line = None) (console st))"
    and 6: "toolCount st = length (tools st)"
    using counted_compile_paths [OF st] by (simp_all add: counted_def)
  show "\<exists>st. compile_paths env spec = Inr st \<and>
         (\<not> manifestOnly \<and> (\<forall>line \<in> set (console st). snd line \<noteq> None) \<longrightarrow>
            map_option manifest_tools (fst (createMCPFromSwagger env spec manifestOnly port))
              = Some [] \<and>
            snd (createMCPFromSwagger env spec manifestOnly port) = Throws NoToolsRegistered) \<and>
         (manifestOnly \<longrightarrow>
            map_option manifest_tools (fst (createMCPFromSwagger env spec manifestOnly port))
              = Some (tools st) \<and>
            snd (createMCPFromSwagger env spec manifestOnly port) = ReturnsNull) \<and>
         (\<not> manifestOnly \<and> (\<exists>line \<in> set (console st). snd line = None) \<longrightarrow>
            map_option manifest_tools (fst (createMCPFromSwagger env spec manifestOnly port))
              = Some (tools st) \<and>
            snd (createMCPFromSwagger env spec manifestOnly port)
              = ReturnsServer (map tool_name (tools st))) \<and>
         length (console st)
           = length (filter (\<lambda>entry. toLowerCase (fst entry) \<in> set verbs)
               (concat (map (\<lambda>item. case snd item of Some methods \<Rightarrow> methods | None \<Rightarrow> [])
                            (paths spec)))) \<and>
         length (tools st) = length (filter (\<lambda>line. snd line = None) (console st)) \<and>
         toolCount st = length (tools st)"
    using st 1 2 3 4 5 6 by (intro exI [of _ st] conjI impI) blast+
next
  assume "toLowerCase (fst entry) \<in> set verbs \<and>
    register_operation env spec st0 route (fst entry) (snd entry) = Inl (e, used)"
  then show "compile_entry env spec route entry st0
        = st0 \<lparr> registeredTools := used,
                console := console st0 @ [(toUpperCase (fst entry) @ '' '' @ route, Some e)] \<rparr>"
    by (simp add: compile_entry_def)
qed

theorem createMCPFromSwagger_no_tools_witness:
  "map_sum id console (compile_paths lenient null_spec) = Inr [(''GET /a'', Some TypeError)] \<and>
   createMCPFromSwagger lenient null_spec False (Some 4000)
     = (Some \<lparr> manifest_name = ''Example'', manifest_version = ''1.0.0'',
               manifest_description = ''MCP server generated from Swagger/OpenAPI'',
               manifest_tools = [], manifest_server = ''http://localhost:4000'' \<rparr>,
        Throws NoToolsRegistered) \<and>
   snd (createMCPFromSwagger lenient null_spec True (Some 4000)) = ReturnsNull \<and>
   map_sum id console (compile_paths lenient mixed_spec)
     = Inr [(''GET /a'', Some TypeError), (''POST /a'', None)] \<and>
   snd (createMCPFromSwagger lenient mixed_spec False (Some 4000)) = ReturnsServer [''POST /a''] \<and>
   compile_entry lenient null_spec ''/a'' (''get'', None)
       \<lparr> registeredTools = [], server_tools = [], tools = [], toolCount = 0, console = [] \<rparr>
     = \<lparr> registeredTools = [], server_tools = [], tools = [], toolCount = 0,
         console = [(''GET /a'', Some TypeError)] \<rparr>"
proof -
  have port: "validatePort (Some 4000) = Inr 4000" by (simp add: validatePort_def)
  have url: "getBaseUrl null_spec = Inr ''https://api.example.com''"
    "getBaseUrl mixed_spec = Inr ''https://api.example.com''"
    by code_simp+
  have items: "\<forall>item \<in> set (paths null_spec). snd item \<noteq> None"
    "\<forall>item \<in> set (paths mixed_spec). snd item \<noteq> None"
    by (simp_all add: null_spec_def mixed_spec_def example_api_def)
  from createMCPFromSwagger_no_tools [where port = "Some 4000" and p = 4000
      and baseUrl = "''https://api.example.com''" and spec = null_spec and env = lenient and manifestOnly = False, THEN conjunct1]
  obtain st where st: "compile_paths lenient null_spec = Inr st"
    and run: "(\<forall>line \<in> set (console st). snd line \<noteq> None) \<longrightarrow>
       map_option manifest_tools (fst (createMCPFromSwagger lenient null_spec False (Some 4000)))
         = Some [] \<and>
       snd (createMCPFromSwagger lenient null_spec False (Some 4000)) = Throws NoToolsRegistered"
    using port url(1) items(1) by auto
  have "console st = [(''GET /a'', Some TypeError)]"
    using null_spec_console by (simp add: st)
  then have 1: "snd (createMCPFromSwagger lenient null_spec False (Some 4000))
                  = Throws NoToolsRegistered"
    and t: "map_option manifest_tools (fst (createMCPFromSwagger lenient null_spec False (Some 4000)))
              = Some []"
    using run by simp_all
  have m: "fst (createMCPFromSwagger lenient null_spec False (Some 4000))
      = Some \<lparr> manifest_name = ''Example'', manifest_version = ''1.0.0'',
               manifest_description = ''MCP server generated from Swagger/OpenAPI'',
               manifest_tools = tools st, manifest_server = ''http://localhost:4000'' \<rparr>"
    using port url(1) st
    by (simp add: createMCPFromSwagger_def Let_def null_spec_def example_api_def or_default_def
          show_int_def show_nat.simps)
  then have m0: "fst (createMCPFromSwagger lenient null_spec False (Some 4000))
      = Some \<lparr> manifest_name = ''Example'', manifest_version = ''1.0.0'',
               manifest_description = ''MCP server generated from Swagger/OpenAPI'',
               manifest_tools = [], manifest_server = ''http://localhost:4000'' \<rparr>"
    using t by simp
  from createMCPFromSwagger_no_tools [where port = "Some 4000" and p = 4000
      and baseUrl = "''https://api.example.com''" and spec = null_spec and env = lenient and manifestOnly = True, THEN conjunct1]
  have 2: "snd (createMCPFromSwagger lenient null_spec True (Some 4000)) = ReturnsNull"
    using port url(1) items(1) by auto
  from createMCPFromSwagger_no_tools [where port = "Some 4000" and p = 4000
      and baseUrl = "''https://api.example.com''" and spec = mixed_spec and env = lenient and manifestOnly = False, THEN conjunct1]
  obtain st' where st': "compile_paths lenient mixed_spec = Inr st'"
    and run': "(\<exists>line \<in> set (console st'). snd line = None) \<longrightarrow>
       snd (createMCPFromSwagger lenient mixed_spec False (Some 4000))
         = ReturnsServer (map tool_name (tools st'))"
    using port url(2) items(2) by auto
  have c': "console st' = [(''GET /a'', Some TypeError), (''POST /a'', None)]"
    using mixed_spec_console by (simp add: st')
  have "map_sum id (\<lambda>st. map tool_name (tools st)) (compile_paths lenient mixed_spec)
          = Inr [''POST /a'']"
    by code_simp
  then have "map tool_name (tools st') = [''POST /a'']" by (simp add: st')
  then have 3: "snd (createMCPFromSwagger lenient mixed_spec False (Some 4000))
                  = ReturnsServer [''POST /a'']"
    using run' c' by simp
  have verb: "toLowerCase ''get'' \<in> set verbs" "toUpperCase ''get'' = ''GET''"
    by (simp_all add: toLowerCase_def to_lower_char_def toUpperCase_def to_upper_char_def verbs_def)
  have 4: "compile_entry lenient null_spec ''/a'' (''get'', None)
       \<lparr> registeredTools = [], server_tools = [], tools = [], toolCount = 0, console = [] \<rparr>
     = \<lparr> registeredTools = [], server_tools = [], tools = [], toolCount = 0,
         console = [(''GET /a'', Some TypeError)] \<rparr>"
    using createMCPFromSwagger_no_tools [where env = lenient and spec = null_spec
        and route = "''/a''" and entry = "(''get'', None)" and e = TypeError and used = "[]"
        and ?st0.0 = "\<lparr> registeredTools = [], server_tools = [], tools = [], toolCount = 0,
                        console = [] \<rparr>", THEN conjunct2, rule_format]
    by (simp add: verb register_operation_def)
  show ?thesis
    using null_spec_console mixed_spec_console 1 2 3 4 m0
    by (simp add: prod_eq_iff)
qed

end
